theory Spec2Isabelle
  imports Complex_Main
begin

section \<open>Lowering a traced tensor graph to a tensor-expression kernel (fx/nnc\_compile.py)\<close>

text \<open>
  The Python module walks a \<open>torch.fx\<close> graph and builds calls into the tensor-expression
  compiler \<open>torch._C._te\<close>. Both libraries are outside the repository. Objects of the
  tensor-expression compiler are modelled symbolically: each constructor call of the
  source becomes a constructor of a datatype, so two handles are equal exactly when they
  were built by the same calls on the same arguments.
\<close>

subsection \<open>Errors and Python values\<close>

text \<open>Every \<open>raise\<close> of the source and every failing built-in operation is a value.\<close>

datatype error =
    RuntimeError string
  | KeyError string
  | IndexError
  | TypeError
  | ValueError
  | AttributeError

text \<open>
  A Python value as \<open>to_expr\<close> distinguishes it: an \<open>int\<close>, a \<open>float\<close>, or anything
  else, of which only the printed type is kept (it appears in the error message).
\<close>

datatype pyval = PInt int | PFloat real | POther string

datatype expr = IntImm int | FloatImm real | Var string

datatype torch_dtype = TorchFloat | TorchLong | TorchFloat64 | TorchOtherDtype string

datatype te_dtype = Float | Long | Double

subsection \<open>Small helpers of the source\<close>

text \<open>\<open>str(n)\<close> for a natural number, used for the loop-variable names of \<open>get_dim_args\<close>.\<close>

definition digit_char :: "nat \<Rightarrow> char" where
  "digit_char d = char_of (48 + d)"

function str_nat :: "nat \<Rightarrow> string" where
  "str_nat n = (if n < 10 then [digit_char n] else str_nat (n div 10) @ [digit_char (n mod 10)])"
  by pat_completeness auto
termination
  by (relation "measure id") auto

declare str_nat.simps [simp del]

text \<open>
  \<open>te.ExprHandle.int(i)\<close> takes a 32-bit C integer: for a Python integer outside that
  range the call raises \<open>TypeError\<close>. \<open>te.ExprHandle.float\<close> is recorded with the
  Python float it is given.
\<close>

definition expr_int :: "int \<Rightarrow> error + expr" where
  "expr_int i = (if - (2 ^ 31) \<le> i \<and> i < 2 ^ 31 then Inr (IntImm i) else Inl TypeError)"

datatype dim_arg = DimArg expr string

fun get_dim_args_loop :: "int list \<Rightarrow> dim_arg list \<Rightarrow> error + dim_arg list" where
  "get_dim_args_loop [] dim_args = Inr dim_args"
| "get_dim_args_loop (d # dims) dim_args =
     (case expr_int d of
        Inl e \<Rightarrow> Inl e
      | Inr x \<Rightarrow>
          get_dim_args_loop dims (dim_args @ [DimArg x (''i'' @ str_nat (length dim_args))]))"

definition get_dim_args :: "int list \<Rightarrow> error + dim_arg list" where
  "get_dim_args dims = get_dim_args_loop dims []"

text \<open>\<open>[te.ExprHandle.int(i) for i in shape]\<close>: the first extent that does not fit raises.\<close>

fun get_te_shapes :: "int list \<Rightarrow> error + expr list" where
  "get_te_shapes [] = Inr []"
| "get_te_shapes (i # shape) =
     (case expr_int i of
        Inl e \<Rightarrow> Inl e
      | Inr x \<Rightarrow> (case get_te_shapes shape of Inl e \<Rightarrow> Inl e | Inr xs \<Rightarrow> Inr (x # xs)))"

definition to_expr :: "pyval \<Rightarrow> error + expr" where
  "to_expr x =
     (case x of
        PInt i \<Rightarrow> expr_int i
      | PFloat r \<Rightarrow> Inr (FloatImm r)
      | POther ty \<Rightarrow> Inl (RuntimeError (''type '' @ ty @ '' not supported'')))"

definition get_nnc_type :: "torch_dtype \<Rightarrow> error + te_dtype" where
  "get_nnc_type dtype =
     (if dtype = TorchFloat then Inr Float
      else if dtype = TorchLong then Inr Long
      else if dtype = TorchFloat64 then Inr Double
      else Inl (RuntimeError ''nyi''))"

subsection \<open>The broadcast index helper\<close>

text \<open>
  \<open>index_or_broadcast(shape, *args)\<close>: the loop over \<open>enumerate(args)\<close> carries the
  position \<open>idx\<close> and the list \<open>out\<close> built so far. \<open>shape[idx]\<close> is read only
  when \<open>idx < len(shape)\<close>.
\<close>

fun index_or_broadcast_loop :: "int list \<Rightarrow> nat \<Rightarrow> expr list \<Rightarrow> expr list \<Rightarrow> error + expr list" where
  "index_or_broadcast_loop shape idx [] out = Inr out"
| "index_or_broadcast_loop shape idx (arg # rest) out =
     (if idx \<ge> length shape then index_or_broadcast_loop shape (Suc idx) rest out
      else if shape ! idx = 1 then
        (case to_expr (PInt 0) of
           Inl e \<Rightarrow> Inl e
         | Inr z \<Rightarrow> index_or_broadcast_loop shape (Suc idx) rest (out @ [z]))
      else index_or_broadcast_loop shape (Suc idx) rest (out @ [arg]))"

definition index_or_broadcast :: "int list \<Rightarrow> expr list \<Rightarrow> error + expr list" where
  "index_or_broadcast shape args = index_or_broadcast_loop shape 0 args []"

subsection \<open>Zero-rank shapes\<close>

definition process_shape :: "int list \<Rightarrow> int list" where
  "process_shape x = (if length x = 0 then [1] else x)"

section \<open>The traced graph\<close>

text \<open>
  \<open>torch.fx\<close> is not part of the repository; what the source reads of it is modelled
  here. An argument of a node is a nested structure of tuples, lists, dictionaries and
  slices whose leaves are references to nodes or literals. A reference to a node object
  is the pair of the graph that owns the node and the node's name: fx keeps names
  unique within a graph, so the pair identifies the object.
\<close>

datatype noderef = NodeRef (ref_graph: nat) (ref_name: string)

datatype 'r pyleaf = Ref 'r | IntLit int | FloatLit real | NoneLit | OtherLit string

datatype 'a agg =
    Leaf 'a
  | Tuple "'a agg list"
  | PyList "'a agg list"
  | Dict "(string \<times> 'a agg) list"
  | Slice "'a agg" "'a agg" "'a agg"

type_synonym argument = "noderef pyleaf agg"

text \<open>
  A function object is identified by its qualified name; \<open>fun_name\<close> is its
  \<open>__name__\<close>. The target of a node is a function object (for \<open>call_function\<close>) or a
  string (the parameter name of a placeholder, the attribute path of \<open>get_attr\<close>).
\<close>

datatype pyfun = PyFun (qualname: string) (fun_name: string)

datatype target = FnTarget pyfun | StrTarget string

record tensor_meta =
  tm_shape :: "int list"
  tm_dtype :: torch_dtype

text \<open>
  \<open>node_args\<close> holds the elements of the tuple \<open>node.args\<close> (fx keeps it a tuple),
  \<open>node_kwargs\<close> the items of the dictionary \<open>node.kwargs\<close>, and \<open>node_meta\<close> the
  entry \<open>node.meta['tensor_meta']\<close> when the dictionary \<open>node.meta\<close> has that key.
  The graph is the list of its nodes in definition order, as iterating
  \<open>graph.nodes\<close> yields them. The source reads the graph after tracing (and, in
  \<open>nnc_compile\<close>, after shape propagation); the model starts from that graph.
\<close>

record node =
  node_graph :: nat
  node_name :: string
  node_op :: string
  node_target :: target
  node_args :: "argument list"
  node_kwargs :: "(string \<times> argument) list"
  node_meta :: "tensor_meta option"

definition ref_of :: "node \<Rightarrow> noderef" where
  "ref_of n = NodeRef (node_graph n) (node_name n)"

text \<open>Following a reference: the node object it points to.\<close>

definition deref :: "node list \<Rightarrow> noderef \<Rightarrow> node option" where
  "deref nodes r = find (\<lambda>n. ref_of n = r) nodes"

text \<open>
  \<open>fx.node.map_aggregate(a, fn)\<close> rebuilds the structure, applying \<open>fn\<close> to every
  leaf from left to right; the first leaf on which \<open>fn\<close> raises aborts the traversal.
\<close>

fun map_aggregate :: "'a agg \<Rightarrow> ('a \<Rightarrow> error + 'b) \<Rightarrow> error + 'b agg"
  and map_aggregate_list :: "'a agg list \<Rightarrow> ('a \<Rightarrow> error + 'b) \<Rightarrow> error + 'b agg list"
  and map_aggregate_items ::
    "(string \<times> 'a agg) list \<Rightarrow> ('a \<Rightarrow> error + 'b) \<Rightarrow> error + (string \<times> 'b agg) list"
where
  "map_aggregate (Leaf x) fn = (case fn x of Inl e \<Rightarrow> Inl e | Inr y \<Rightarrow> Inr (Leaf y))"
| "map_aggregate (Tuple xs) fn =
     (case map_aggregate_list xs fn of Inl e \<Rightarrow> Inl e | Inr ys \<Rightarrow> Inr (Tuple ys))"
| "map_aggregate (PyList xs) fn =
     (case map_aggregate_list xs fn of Inl e \<Rightarrow> Inl e | Inr ys \<Rightarrow> Inr (PyList ys))"
| "map_aggregate (Dict kvs) fn =
     (case map_aggregate_items kvs fn of Inl e \<Rightarrow> Inl e | Inr kws \<Rightarrow> Inr (Dict kws))"
| "map_aggregate (Slice a b c) fn =
     (case map_aggregate a fn of
        Inl e \<Rightarrow> Inl e
      | Inr a' \<Rightarrow>
          (case map_aggregate b fn of
             Inl e \<Rightarrow> Inl e
           | Inr b' \<Rightarrow>
               (case map_aggregate c fn of Inl e \<Rightarrow> Inl e | Inr c' \<Rightarrow> Inr (Slice a' b' c'))))"
| "map_aggregate_list [] fn = Inr []"
| "map_aggregate_list (x # xs) fn =
     (case map_aggregate x fn of
        Inl e \<Rightarrow> Inl e
      | Inr y \<Rightarrow> (case map_aggregate_list xs fn of Inl e \<Rightarrow> Inl e | Inr ys \<Rightarrow> Inr (y # ys)))"
| "map_aggregate_items [] fn = Inr []"
| "map_aggregate_items (kv # kvs) fn =
     (case map_aggregate (snd kv) fn of
        Inl e \<Rightarrow> Inl e
      | Inr y \<Rightarrow>
          (case map_aggregate_items kvs fn of
             Inl e \<Rightarrow> Inl e
           | Inr ys \<Rightarrow> Inr ((fst kv, y) # ys)))"

text \<open>\<open>map_arg(a, fn)\<close> applies \<open>fn\<close> to the leaves that are nodes and keeps the others.\<close>

definition on_nodes :: "('r \<Rightarrow> error + 's) \<Rightarrow> 'r pyleaf \<Rightarrow> error + 's pyleaf" where
  "on_nodes fn x =
     (case x of
        Ref r \<Rightarrow> (case fn r of Inl e \<Rightarrow> Inl e | Inr y \<Rightarrow> Inr (Ref y))
      | IntLit i \<Rightarrow> Inr (IntLit i)
      | FloatLit f \<Rightarrow> Inr (FloatLit f)
      | NoneLit \<Rightarrow> Inr NoneLit
      | OtherLit t \<Rightarrow> Inr (OtherLit t))"

definition map_arg :: "'r pyleaf agg \<Rightarrow> ('r \<Rightarrow> error + 's) \<Rightarrow> error + 's pyleaf agg" where
  "map_arg a fn = map_aggregate a (on_nodes fn)"

definition map_arg_list :: "'r pyleaf agg list \<Rightarrow> ('r \<Rightarrow> error + 's) \<Rightarrow> error + 's pyleaf agg list" where
  "map_arg_list a fn = map_aggregate_list a (on_nodes fn)"

definition map_arg_items ::
  "(string \<times> 'r pyleaf agg) list \<Rightarrow> ('r \<Rightarrow> error + 's) \<Rightarrow> error + (string \<times> 's pyleaf agg) list" where
  "map_arg_items a fn = map_aggregate_items a (on_nodes fn)"

section \<open>Objects of the tensor-expression compiler\<close>

text \<open>
  \<open>te.Placeholder(name, dtype, shapes)\<close>, the buffer handle \<open>placeholder.data()\<close>,
  \<open>te.BufHandle(name, shapes, dtype)\<close>, the tensor built by \<open>te.lower\<close> or
  \<open>te.Compute\<close> with its \<open>buf()\<close> and \<open>stmt()\<close>, \<open>te.ExternalCall\<close>, and the
  statements and loop nest of the final scheduling calls. \<open>te.Compute(name, dims, f)\<close>
  is recorded with the expression \<open>f\<close> returns on the loop variables of \<open>dims\<close>.
\<close>

datatype te_placeholder = Placeholder string te_dtype "expr list"

datatype buf =
    PlaceholderData te_placeholder
  | BufHandle string "expr list" te_dtype
  | TensorBuf te_tensor
and te_tensor =
    Lower string "buf pyleaf agg list" "expr list" te_dtype
  | Compute string "dim_arg list" expr

datatype stmt =
    TensorStmt te_tensor
  | ExternalCall buf string "buf pyleaf agg list" "expr list"
  | Block "stmt list"
  | RootStmt loopnest
  | Simplify stmt
and loopnest =
    LoopNest stmt "buf list"
  | LoopNestSimplify loopnest
  | PrepareForCodegen loopnest

datatype te_arg = OfHandle buf | OfPlaceholder te_placeholder

datatype buffer_arg = BufferArg te_arg

datatype codegen = ConstructCodegen string stmt "buffer_arg list"

text \<open>What a lowering rule returns: a \<open>te.Tensor\<close>, or a pair of a buffer and statements.\<close>

datatype lowered = LoweredTensor te_tensor | LoweredPair buf "stmt list"

section \<open>Lowering rules\<close>

type_synonym inp_shape = "(int list \<times> torch_dtype) option agg"

definition dim_var :: "dim_arg \<Rightarrow> expr" where
  "dim_var d = (case d of DimArg _ v \<Rightarrow> Var v)"

text \<open>The inner function \<open>f(*idxs)\<close> of \<open>ones_like_lower\<close>.\<close>

definition ones_like_f :: "expr list \<Rightarrow> error + expr" where
  "ones_like_f idxs = to_expr (PFloat 1)"

definition ones_like_lower ::
  "string \<Rightarrow> int list \<Rightarrow> inp_shape list \<Rightarrow> buf pyleaf agg list \<Rightarrow> error + lowered" where
  "ones_like_lower nm out_shape inp_shapes args =
     (case get_dim_args out_shape of
        Inl e \<Rightarrow> Inl e
      | Inr dims \<Rightarrow>
          (case ones_like_f (map dim_var dims) of
             Inl e \<Rightarrow> Inl e
           | Inr body \<Rightarrow> Inr (LoweredTensor (Compute nm dims body))))"

text \<open>
  \<open>inp_shapes[i][0]\<close> and \<open>inp_shapes[i][1]\<close>: the entry of a node operand with
  tensor metadata is the pair (shape, dtype); the entry of any other operand is
  \<open>None\<close>, which cannot be indexed. A nested operand (a tuple or list among the
  arguments) has no shape and dtype of its own; the model reports it as a type error
  as well.
\<close>

definition shape_dtype_at :: "inp_shape list \<Rightarrow> nat \<Rightarrow> error + (int list \<times> torch_dtype)" where
  "shape_dtype_at inp_shapes i =
     (if i < length inp_shapes then
        (case inp_shapes ! i of
           Leaf (Some sd) \<Rightarrow> Inr sd
         | _ \<Rightarrow> Inl TypeError)
      else Inl IndexError)"

definition dot_lower ::
  "string \<Rightarrow> int list \<Rightarrow> inp_shape list \<Rightarrow> buf pyleaf agg list \<Rightarrow> error + lowered" where
  "dot_lower nm out_shape inp_shapes args =
     (case shape_dtype_at inp_shapes 0 of
        Inl e \<Rightarrow> Inl e
      | Inr (shape0, dtype0) \<Rightarrow>
          (case get_te_shapes shape0 of
             Inl e \<Rightarrow> Inl e
           | Inr mul_shape \<Rightarrow>
               (case get_nnc_type dtype0 of
                  Inl e \<Rightarrow> Inl e
                | Inr ty \<Rightarrow>
                    (let mul_te = Lower ''aten::mul'' args mul_shape ty in
                     case get_te_shapes out_shape of
                       Inl e \<Rightarrow> Inl e
                     | Inr sum_shape \<Rightarrow>
                         (let res = Lower ''aten::sum'' [Leaf (Ref (TensorBuf mul_te))] sum_shape ty
                          in Inr (LoweredPair (TensorBuf res) [TensorStmt mul_te, TensorStmt res]))))))"

definition mv_lower ::
  "string \<Rightarrow> int list \<Rightarrow> inp_shape list \<Rightarrow> buf pyleaf agg list \<Rightarrow> error + lowered" where
  "mv_lower nm out_shape inp_shapes args =
     (if length args < 2 then Inl IndexError
      else
        (let A = args ! 0; B = args ! 1 in
         case shape_dtype_at inp_shapes 0 of
           Inl e \<Rightarrow> Inl e
         | Inr (shape0, dtype0) \<Rightarrow>
             (case shape0 of
                [N, M] \<Rightarrow>
                  (case get_te_shapes [N] of
                     Inl e \<Rightarrow> Inl e
                   | Inr c_shape \<Rightarrow>
                       (case get_nnc_type dtype0 of
                          Inl e \<Rightarrow> Inl e
                        | Inr ty \<Rightarrow>
                            (let C = BufHandle ''C'' c_shape ty;
                                 s = ExternalCall C ''nnc_aten_mv'' [A, B] []
                             in Inr (LoweredPair C [s]))))
              | _ \<Rightarrow> Inl ValueError)))"

definition aten_ones_like :: pyfun where "aten_ones_like = PyFun ''torch.ops.aten.ones_like'' ''ones_like''"
definition aten_dot :: pyfun where "aten_dot = PyFun ''torch.ops.aten.dot'' ''dot''"
definition aten_mv :: pyfun where "aten_mv = PyFun ''torch.ops.aten.mv'' ''mv''"
definition aten_slice :: pyfun where "aten_slice = PyFun ''torch.ops.aten.slice'' ''slice''"
definition aten_add :: pyfun where "aten_add = PyFun ''torch.ops.aten.add'' ''add''"
definition aten_mul :: pyfun where "aten_mul = PyFun ''torch.ops.aten.mul'' ''mul''"
definition aten_sin :: pyfun where "aten_sin = PyFun ''torch.ops.aten.sin'' ''sin''"
definition aten_cos :: pyfun where "aten_cos = PyFun ''torch.ops.aten.cos'' ''cos''"
definition operator_getitem :: pyfun where "operator_getitem = PyFun ''operator.getitem'' ''getitem''"
definition operator_add :: pyfun where "operator_add = PyFun ''operator.add'' ''add''"
definition operator_mul :: pyfun where "operator_mul = PyFun ''operator.mul'' ''mul''"
definition torch_mul :: pyfun where "torch_mul = PyFun ''torch.mul'' ''mul''"
definition torch_sin :: pyfun where "torch_sin = PyFun ''torch.sin'' ''sin''"
definition torch_cos :: pyfun where "torch_cos = PyFun ''torch.cos'' ''cos''"
definition builtin_getattr :: pyfun where "builtin_getattr = PyFun ''builtins.getattr'' ''getattr''"

definition lowering_functions ::
  "pyfun \<rightharpoonup> (string \<Rightarrow> int list \<Rightarrow> inp_shape list \<Rightarrow> buf pyleaf agg list \<Rightarrow> error + lowered)" where
  "lowering_functions =
     map_of [(aten_ones_like, ones_like_lower), (aten_dot, dot_lower), (aten_mv, mv_lower)]"

definition func_to_aten :: "pyfun \<rightharpoonup> pyfun" where
  "func_to_aten =
     map_of [(operator_getitem, aten_slice), (operator_add, aten_add), (operator_mul, aten_mul),
             (torch_mul, aten_mul), (torch_sin, aten_sin), (torch_cos, aten_cos)]"

text \<open>
  The function mapped over the operands in \<open>lower_function\<close>: the promoted shape and the
  dtype of an operand that is a node with tensor metadata, \<open>None\<close> for any other leaf.
\<close>

definition operand_shape :: "node list \<Rightarrow> noderef pyleaf \<Rightarrow> error + (int list \<times> torch_dtype) option" where
  "operand_shape nodes arg =
     (case arg of
        Ref r \<Rightarrow>
          (case deref nodes r of
             Some n \<Rightarrow>
               (case node_meta n of
                  Some tm \<Rightarrow> Inr (Some (process_shape (tm_shape tm), tm_dtype tm))
                | None \<Rightarrow> Inr None)
           | None \<Rightarrow> Inr None)
      | _ \<Rightarrow> Inr None)"

text \<open>
  \<open>lower_function(node, op, nnc_args, args)\<close>. The graph \<open>nodes\<close> stands for the heap
  through which \<open>arg.meta\<close> is read. \<open>node.meta['tensor_meta']\<close> raises \<open>KeyError\<close>
  when the key is absent, and \<open>op.__name__\<close> raises \<open>AttributeError\<close> on a string.
\<close>

definition lower_function ::
  "node list \<Rightarrow> node \<Rightarrow> target \<Rightarrow> buf pyleaf agg list \<Rightarrow> argument list \<Rightarrow> error + (buf \<times> stmt list)" where
  "lower_function nodes nd opr nnc_args args =
     (case map_aggregate_list args (operand_shape nodes) of
        Inl e \<Rightarrow> Inl e
      | Inr inp_shapes \<Rightarrow>
          (let out =
             (case (case opr of FnTarget fn \<Rightarrow> lowering_functions fn | StrTarget _ \<Rightarrow> None) of
                Some rule \<Rightarrow>
                  (case node_meta nd of
                     None \<Rightarrow> Inl (KeyError ''tensor_meta'')
                   | Some tm \<Rightarrow> rule (node_name nd) (process_shape (tm_shape tm)) inp_shapes nnc_args)
              | None \<Rightarrow>
                  (case opr of
                     StrTarget _ \<Rightarrow> Inl AttributeError
                   | FnTarget fn \<Rightarrow>
                       (let opr' = (case func_to_aten fn of Some a \<Rightarrow> a | None \<Rightarrow> fn);
                            aten_str = ''aten::'' @ fun_name opr'
                        in case node_meta nd of
                             None \<Rightarrow> Inl (KeyError ''tensor_meta'')
                           | Some tm \<Rightarrow>
                               (case get_te_shapes (process_shape (tm_shape tm)) of
                                  Inl e \<Rightarrow> Inl e
                                | Inr out_shape \<Rightarrow>
                                    (case get_nnc_type (tm_dtype tm) of
                                       Inl e \<Rightarrow> Inl e
                                     | Inr ty \<Rightarrow>
                                         Inr (LoweredTensor (Lower aten_str nnc_args out_shape ty)))))))
           in case out of
                Inl e \<Rightarrow> Inl e
              | Inr (LoweredTensor t) \<Rightarrow> Inr (TensorBuf t, [TensorStmt t])
              | Inr (LoweredPair b ss) \<Rightarrow> Inr (b, ss)))"

section \<open>The lowering driver\<close>

text \<open>
  The local variables of \<open>nnc_compile\<close> that the loop over the nodes updates.
  \<open>outs\<close> is \<open>None\<close> until an output node is met.
\<close>

record cstate =
  env :: "string \<rightharpoonup> buf"
  inputs :: "te_placeholder list"
  module_attrs :: "node list"
  compute_stmts :: "stmt list"
  outs :: "(buf list \<times> (int list \<times> torch_dtype) list) option"

definition init_cstate :: cstate where
  "init_cstate = \<lparr>env = Map.empty, inputs = [], module_attrs = [], compute_stmts = [], outs = None\<rparr>"

definition get_te_type :: "node \<Rightarrow> error + te_dtype" where
  "get_te_type nd =
     (case node_meta nd of
        None \<Rightarrow> Inl (KeyError ''tensor_meta'')
      | Some tm \<Rightarrow> get_nnc_type (tm_dtype tm))"

definition env_at :: "(string \<rightharpoonup> buf) \<Rightarrow> noderef \<Rightarrow> error + buf" where
  "env_at e x = (case e (ref_name x) of None \<Rightarrow> Inl (KeyError (ref_name x)) | Some h \<Rightarrow> Inr h)"

definition lookup_env :: "(string \<rightharpoonup> buf) \<Rightarrow> argument list \<Rightarrow> error + buf pyleaf agg list" where
  "lookup_env e l = map_aggregate_list l (on_nodes (env_at e))"

text \<open>
  The list comprehension of the output branch reads \<open>i.meta['tensor_meta']\<close> of every
  element \<open>i\<close> of \<open>args\<close>: an element that is not a node has no \<open>meta\<close>.
\<close>

definition output_meta :: "node list \<Rightarrow> argument \<Rightarrow> error + (int list \<times> torch_dtype)" where
  "output_meta nodes i =
     (case i of
        Leaf (Ref r) \<Rightarrow>
          (case deref nodes r of
             Some n \<Rightarrow>
               (case node_meta n of
                  Some tm \<Rightarrow> Inr (tm_shape tm, tm_dtype tm)
                | None \<Rightarrow> Inl (KeyError ''tensor_meta''))
           | None \<Rightarrow> Inl (KeyError ''tensor_meta''))
      | _ \<Rightarrow> Inl AttributeError)"

fun output_metas :: "node list \<Rightarrow> argument list \<Rightarrow> error + (int list \<times> torch_dtype) list" where
  "output_metas nodes [] = Inr []"
| "output_metas nodes (i # is) =
     (case output_meta nodes i of
        Inl e \<Rightarrow> Inl e
      | Inr m \<Rightarrow> (case output_metas nodes is of Inl e \<Rightarrow> Inl e | Inr ms \<Rightarrow> Inr (m # ms)))"

text \<open>
  \<open>list(te_args)\<close> as a list of handles. The comprehension above has already raised
  unless every element of \<open>args\<close> is a node, so the last case is never taken after it.
\<close>

fun handles_of :: "buf pyleaf agg list \<Rightarrow> error + buf list" where
  "handles_of [] = Inr []"
| "handles_of (Leaf (Ref h) # xs) =
     (case handles_of xs of Inl e \<Rightarrow> Inl e | Inr hs \<Rightarrow> Inr (h # hs))"
| "handles_of (_ # xs) = Inl AttributeError"

text \<open>
  The body of the loop \<open>for node in fx_model.graph.nodes\<close>. In the output branch
  \<open>node.args\<close> is a tuple, so the test \<open>not isinstance(args, tuple)\<close> is never
  taken; a nested tuple as first element replaces \<open>args\<close>. The last branch prints the
  node's kind and target before it raises; the printed line is not part of the model.
\<close>

definition compile_node :: "node list \<Rightarrow> cstate \<Rightarrow> node \<Rightarrow> error + cstate" where
  "compile_node nodes st nd =
     (if node_op nd = ''placeholder'' then
        (case node_meta nd of
           None \<Rightarrow> Inl (KeyError ''tensor_meta'')
         | Some tm \<Rightarrow>
             (case get_te_shapes (tm_shape tm) of
                Inl e \<Rightarrow> Inl e
              | Inr shapes \<Rightarrow>
                  (case get_te_type nd of
                     Inl e \<Rightarrow> Inl e
                   | Inr ty \<Rightarrow>
                       (let placeholder = Placeholder (node_name nd) ty shapes in
                        Inr (st\<lparr>env := (env st)(node_name nd \<mapsto> PlaceholderData placeholder),
                                inputs := inputs st @ [placeholder]\<rparr>)))))
      else if node_op nd = ''call_function'' then
        (if node_meta nd \<noteq> None then
           (if node_kwargs nd \<noteq> [] then Inl (RuntimeError ''kwargs nyi'')
            else
              (case lookup_env (env st) (node_args nd) of
                 Inl e \<Rightarrow> Inl e
               | Inr nnc_args \<Rightarrow>
                   (case lower_function nodes nd (node_target nd) nnc_args (node_args nd) of
                      Inl e \<Rightarrow> Inl e
                    | Inr (b, ss) \<Rightarrow>
                        Inr (st\<lparr>compute_stmts := compute_stmts st @ ss,
                                env := (env st)(node_name nd \<mapsto> b)\<rparr>))))
         else if node_target nd = FnTarget builtin_getattr \<or> node_target nd = FnTarget operator_getitem
           then Inr st
         else Inr st)
      else if node_op nd = ''output'' then
        (case node_args nd of
           [] \<Rightarrow> Inl IndexError
         | a0 # _ \<Rightarrow>
             (let args = (case a0 of Tuple xs \<Rightarrow> xs | _ \<Rightarrow> node_args nd) in
              case lookup_env (env st) args of
                Inl e \<Rightarrow> Inl e
              | Inr te_args \<Rightarrow>
                  (case output_metas nodes args of
                     Inl e \<Rightarrow> Inl e
                   | Inr metas \<Rightarrow>
                       (case handles_of te_args of
                          Inl e \<Rightarrow> Inl e
                        | Inr hs \<Rightarrow> Inr (st\<lparr>outs := Some (hs, metas)\<rparr>)))))
      else if node_op nd = ''get_attr'' then
        (case node_meta nd of
           None \<Rightarrow> Inl (KeyError ''tensor_meta'')
         | Some tm \<Rightarrow>
             (case get_te_shapes (process_shape (tm_shape tm)) of
                Inl e \<Rightarrow> Inl e
              | Inr shapes \<Rightarrow>
                  (case get_te_type nd of
                     Inl e \<Rightarrow> Inl e
                   | Inr ty \<Rightarrow>
                       (let placeholder = Placeholder (node_name nd) ty shapes in
                        Inr (st\<lparr>module_attrs := module_attrs st @ [nd],
                                env := (env st)(node_name nd \<mapsto> PlaceholderData placeholder)\<rparr>)))))
      else Inl (RuntimeError ''not yet implemented''))"

fun compile_nodes :: "node list \<Rightarrow> node list \<Rightarrow> cstate \<Rightarrow> error + cstate" where
  "compile_nodes nodes [] st = Inr st"
| "compile_nodes nodes (nd # rest) st =
     (case compile_node nodes st nd of
        Inl e \<Rightarrow> Inl e
      | Inr st' \<Rightarrow> compile_nodes nodes rest st')"

section \<open>Finalization and the returned callable\<close>

text \<open>
  A runtime tensor is its storage address together with its shape and dtype; the
  store maps addresses to contents. The traced module is its graph and its attribute
  tree. \<open>hasattr\<close> and \<open>getattr\<close> are modelled on modules only (a tensor's own
  attributes are never the target of a \<open>get_attr\<close> node), and
  \<open>.contiguous().data\<close> of a tensor is the tensor on the same storage.
\<close>

datatype torch_tensor = TorchTensor (addr: nat) (t_shape: "int list") (t_dtype: torch_dtype)

datatype pyobj = ModuleObj "(string \<times> pyobj) list" | TensorObj torch_tensor

record graph_module =
  gm_graph :: "node list"
  gm_attrs :: pyobj

text \<open>\<open>target.split('.')\<close> and \<open>'.'.join(atoms)\<close>.\<close>

fun split_loop :: "char \<Rightarrow> string \<Rightarrow> string \<Rightarrow> string list" where
  "split_loop sep [] cur = [cur]"
| "split_loop sep (c # cs) cur =
     (if c = sep then cur # split_loop sep cs [] else split_loop sep cs (cur @ [c]))"

definition split :: "char \<Rightarrow> string \<Rightarrow> string list" where
  "split sep t = split_loop sep t []"

fun join :: "string \<Rightarrow> string list \<Rightarrow> string" where
  "join sep [] = []"
| "join sep [x] = x"
| "join sep (x # y # ys) = x @ sep @ join sep (y # ys)"

fun fetch_attr_loop :: "string list \<Rightarrow> nat \<Rightarrow> string list \<Rightarrow> pyobj \<Rightarrow> error + pyobj" where
  "fetch_attr_loop target_atoms i [] attr_itr = Inr attr_itr"
| "fetch_attr_loop target_atoms i (atom # rest) attr_itr =
     (case (case attr_itr of ModuleObj kvs \<Rightarrow> map_of kvs atom | TensorObj _ \<Rightarrow> None) of
        None \<Rightarrow>
          Inl (RuntimeError (''Node referenced nonexistant target '' @ join ''.'' (take i target_atoms)))
      | Some v \<Rightarrow> fetch_attr_loop target_atoms (Suc i) rest v)"

definition fetch_attr :: "graph_module \<Rightarrow> string \<Rightarrow> error + pyobj" where
  "fetch_attr fx_model tgt =
     (let target_atoms = split CHR ''.'' tgt in
      fetch_attr_loop target_atoms 0 target_atoms (gm_attrs fx_model))"

text \<open>One element of \<open>module_stuff\<close>: \<open>fetch_attr(i.target).contiguous().data\<close>.\<close>

definition module_tensor :: "graph_module \<Rightarrow> node \<Rightarrow> error + torch_tensor" where
  "module_tensor fx_model i =
     (case node_target i of
        FnTarget _ \<Rightarrow> Inl AttributeError
      | StrTarget tgt \<Rightarrow>
          (case fetch_attr fx_model tgt of
             Inl e \<Rightarrow> Inl e
           | Inr (TensorObj t) \<Rightarrow> Inr t
           | Inr (ModuleObj _) \<Rightarrow> Inl AttributeError))"

fun module_tensors :: "graph_module \<Rightarrow> node list \<Rightarrow> error + torch_tensor list" where
  "module_tensors fx_model [] = Inr []"
| "module_tensors fx_model (i # is) =
     (case module_tensor fx_model i of
        Inl e \<Rightarrow> Inl e
      | Inr t \<Rightarrow> (case module_tensors fx_model is of Inl e \<Rightarrow> Inl e | Inr ts \<Rightarrow> Inr (t # ts)))"

text \<open>\<open>[env[i.name] for i in module_attrs]\<close>.\<close>

fun attr_handles :: "(string \<rightharpoonup> buf) \<Rightarrow> node list \<Rightarrow> error + buf list" where
  "attr_handles e [] = Inr []"
| "attr_handles e (i # is) =
     (case e (node_name i) of
        None \<Rightarrow> Inl (KeyError (node_name i))
      | Some h \<Rightarrow> (case attr_handles e is of Inl err \<Rightarrow> Inl err | Inr hs \<Rightarrow> Inr (h # hs)))"

text \<open>
  \<open>[torch.empty(shape, dtype=dtype) for shape, dtype in outs[1]]\<close>: every call
  allocates storage at the next free address \<open>next\<close>.
\<close>

fun alloc_empty :: "nat \<Rightarrow> (int list \<times> torch_dtype) list \<Rightarrow> torch_tensor list" where
  "alloc_empty next [] = []"
| "alloc_empty next ((shape, dtype) # rest) = TorchTensor next shape dtype # alloc_empty (Suc next) rest"

text \<open>What the closure \<open>f\<close> captures.\<close>

record compiled =
  cg :: codegen
  alloc_results :: "torch_tensor list"
  module_stuff :: "torch_tensor list"

definition buffer_args :: "buf list \<Rightarrow> te_placeholder list \<Rightarrow> buf list \<Rightarrow> buffer_arg list" where
  "buffer_args attr_hs inps out_hs =
     map BufferArg (map OfHandle attr_hs @ map OfPlaceholder inps @ map OfHandle out_hs)"

definition finalize :: "graph_module \<Rightarrow> nat \<Rightarrow> cstate \<Rightarrow> error + compiled" where
  "finalize fx_model next st =
     (case outs st of
        None \<Rightarrow> Inl TypeError
      | Some (outs0, outs1) \<Rightarrow>
          (let loopnest = PrepareForCodegen (LoopNestSimplify (LoopNest (Block (compute_stmts st)) outs0));
               stmt = Simplify (RootStmt loopnest)
           in case attr_handles (env st) (module_attrs st) of
                Inl e \<Rightarrow> Inl e
              | Inr attr_hs \<Rightarrow>
                  (let cg = ConstructCodegen ''llvm'' stmt (buffer_args attr_hs (inputs st) outs0);
                       alloc_results = alloc_empty next outs1
                   in case module_tensors fx_model (module_attrs st) of
                        Inl e \<Rightarrow> Inl e
                      | Inr ms \<Rightarrow>
                          Inr \<lparr>cg = cg, alloc_results = alloc_results, module_stuff = ms\<rparr>)))"

text \<open>
  \<open>nnc_compile(model, example_inputs)\<close>, from the traced and shape-propagated module;
  \<open>next\<close> is the first free storage address.
\<close>

definition nnc_compile :: "graph_module \<Rightarrow> nat \<Rightarrow> error + compiled" where
  "nnc_compile fx_model next =
     (case compile_nodes (gm_graph fx_model) (gm_graph fx_model) init_cstate of
        Inl e \<Rightarrow> Inl e
      | Inr st \<Rightarrow> finalize fx_model next st)"

text \<open>
  The callable \<open>f(*inps, out_tensors=None)\<close>. The generated kernel is outside the
  repository: \<open>call\<close> is what \<open>cg.call\<close> does to the store, given the code generator
  and the buffers passed. \<open>f\<close> returns its value and the store after the call.
\<close>

datatype retval = RetNone | RetTensor torch_tensor | RetList "torch_tensor list"

definition f ::
  "(codegen \<Rightarrow> torch_tensor list \<Rightarrow> 's \<Rightarrow> 's) \<Rightarrow> compiled \<Rightarrow> torch_tensor list \<Rightarrow>
   torch_tensor list option \<Rightarrow> 's \<Rightarrow> retval \<times> 's" where
  "f call c inps out_tensors s =
     (let results = (case out_tensors of None \<Rightarrow> alloc_results c | Some ts \<Rightarrow> ts);
          s' = call (cg c) (module_stuff c @ inps @ results) s
      in if out_tensors = None then
           (if length results = 1 then (RetTensor (results ! 0), s') else (RetList results, s'))
         else (RetNone, s'))"

section \<open>Graph utilities\<close>

subsection \<open>Truncation\<close>

text \<open>
  \<open>fx.Graph()\<close> allocates a new graph; \<open>g'\<close> is its identity. The graph's namespace
  chooses the name of a created node from the candidate name and the names already
  used; that policy of the library is the parameter \<open>create_name\<close>.
  \<open>new_graph.node_copy(node, arg_transform)\<close> creates, at the end of the new graph, a
  node with the operation, target and metadata of \<open>node\<close> and with \<open>arg_transform\<close>
  applied to every node among its arguments and keyword arguments.
  \<open>new_graph.output(result)\<close> creates a node of operation \<open>output\<close> with the one
  argument \<open>result\<close>.
\<close>

definition create_node ::
  "(string list \<Rightarrow> string \<Rightarrow> string) \<Rightarrow> nat \<Rightarrow> node list \<Rightarrow> string \<Rightarrow> target \<Rightarrow>
   argument list \<Rightarrow> (string \<times> argument) list \<Rightarrow> string \<Rightarrow> tensor_meta option \<Rightarrow> node" where
  "create_node create_name g' new_graph opc tgt as kws candidate m =
     \<lparr>node_graph = g', node_name = create_name (map node_name new_graph) candidate,
      node_op = opc, node_target = tgt, node_args = as, node_kwargs = kws, node_meta = m\<rparr>"

definition node_copy ::
  "(string list \<Rightarrow> string \<Rightarrow> string) \<Rightarrow> nat \<Rightarrow> node list \<Rightarrow> node \<Rightarrow>
   (noderef \<Rightarrow> error + noderef) \<Rightarrow> error + node" where
  "node_copy create_name g' new_graph nd arg_transform =
     (case map_arg_list (node_args nd) arg_transform of
        Inl e \<Rightarrow> Inl e
      | Inr as \<Rightarrow>
          (case map_arg_items (node_kwargs nd) arg_transform of
             Inl e \<Rightarrow> Inl e
           | Inr kws \<Rightarrow>
               Inr (create_node create_name g' new_graph (node_op nd) (node_target nd) as kws
                      (node_name nd) (node_meta nd))))"

definition graph_output ::
  "(string list \<Rightarrow> string \<Rightarrow> string) \<Rightarrow> nat \<Rightarrow> node list \<Rightarrow> noderef \<Rightarrow> node" where
  "graph_output create_name g' new_graph result =
     create_node create_name g' new_graph ''output'' (StrTarget ''output'') [Leaf (Ref result)] []
       ''output'' None"

text \<open>The lambda \<open>lambda x: env[x.name]\<close> of \<open>truncate\<close>.\<close>

definition copied :: "(string \<rightharpoonup> noderef) \<Rightarrow> noderef \<Rightarrow> error + noderef" where
  "copied tenv x = (case tenv (ref_name x) of None \<Rightarrow> Inl (KeyError (ref_name x)) | Some r \<Rightarrow> Inr r)"

text \<open>
  The loop of \<open>truncate\<close> over the nodes still to copy, with the dictionary \<open>env\<close>
  (here \<open>tenv\<close>), the counter and the new graph built so far. When the counter
  reaches \<open>k\<close> the output node is added and the loop is left.
\<close>

fun truncate_loop ::
  "(string list \<Rightarrow> string \<Rightarrow> string) \<Rightarrow> nat \<Rightarrow> int \<Rightarrow> node list \<Rightarrow> (string \<rightharpoonup> noderef) \<Rightarrow>
   int \<Rightarrow> node list \<Rightarrow> error + node list" where
  "truncate_loop create_name g' k [] tenv cnt new_graph = Inr new_graph"
| "truncate_loop create_name g' k (nd # rest) tenv cnt new_graph =
     (case node_copy create_name g' new_graph nd (copied tenv) of
        Inl e \<Rightarrow> Inl e
      | Inr new_node \<Rightarrow>
          (let new_graph1 = new_graph @ [new_node];
               tenv1 = tenv(node_name nd \<mapsto> ref_of new_node);
               cnt1 = cnt + 1
           in if cnt1 = k then
                (case tenv1 (node_name nd) of
                   None \<Rightarrow> Inl (KeyError (node_name nd))
                 | Some r \<Rightarrow> Inr (new_graph1 @ [graph_output create_name g' new_graph1 r]))
              else truncate_loop create_name g' k rest tenv1 cnt1 new_graph1))"

text \<open>
  \<open>truncate(model, k)\<close> on the traced graph; the result is the new graph, around which
  the source builds a \<open>GraphModule\<close>.
\<close>

definition truncate ::
  "(string list \<Rightarrow> string \<Rightarrow> string) \<Rightarrow> nat \<Rightarrow> node list \<Rightarrow> int \<Rightarrow> error + node list" where
  "truncate create_name g' model k = truncate_loop create_name g' k model Map.empty 0 []"

subsection \<open>Dead-node elimination\<close>

text \<open>
  The nodes an argument structure mentions, and \<open>node.users\<close>: the nodes of the graph
  that have the node among their arguments or keyword arguments. fx keeps \<open>users\<close> up
  to date when a node is erased (the erased node's arguments are cleared), so it is
  computed from the current graph. \<open>graph.erase_node\<close> refuses a node that has users.
  Iterating \<open>graph.nodes\<close> while erasing the node just visited visits every node of
  the original graph once, in order.
\<close>

definition arg_refs :: "'r pyleaf agg \<Rightarrow> 'r set" where
  "arg_refs a = (\<Union>l \<in> set_agg a. set_pyleaf l)"

definition node_refs :: "node \<Rightarrow> noderef set" where
  "node_refs m = (\<Union>a \<in> set (node_args m). arg_refs a) \<union> (\<Union>kv \<in> set (node_kwargs m). arg_refs (snd kv))"

definition users :: "node list \<Rightarrow> node \<Rightarrow> node list" where
  "users nodes n = filter (\<lambda>m. ref_of n \<in> node_refs m) nodes"

definition erase_node :: "node list \<Rightarrow> node \<Rightarrow> error + node list" where
  "erase_node nodes to_erase =
     (if length (users nodes to_erase) > 0
        then Inl (RuntimeError ''Tried to erase Node but it still had users in the graph'')
      else Inr (filter (\<lambda>m. ref_of m \<noteq> ref_of to_erase) nodes))"

fun remove_args_loop :: "node list \<Rightarrow> node list \<Rightarrow> error + node list" where
  "remove_args_loop [] graph = Inr graph"
| "remove_args_loop (nd # rest) graph =
     (if length (users graph nd) = 0 \<and> node_op nd \<noteq> ''output'' then
        (case erase_node graph nd of
           Inl e \<Rightarrow> Inl e
         | Inr graph' \<Rightarrow> remove_args_loop rest graph')
      else remove_args_loop rest graph)"

definition remove_args :: "node list \<Rightarrow> error + node list" where
  "remove_args model = remove_args_loop model model"

subsection \<open>Executing a graph\<close>

text \<open>
  The code fx generates for a graph is a function whose parameters are the
  placeholders in order and whose body has one local variable per node, named as the
  node, and returns the argument of the output node. The values are references to
  tensors, whose contents are in the store; an operation may change the store (an
  in-place operation such as \<open>add_\<close> does), and the store after the call is part of
  what executing the graph produces. \<open>sem\<close> is the meaning of a node that is neither a
  placeholder nor the output: from the node, the values of its arguments and keyword
  arguments and the store, a value and the store after the operation, or an exception.
  A call with a number of arguments other than the number of parameters is a
  \<open>TypeError\<close>; a graph with no output node returns \<open>None\<close>.
\<close>

definition value_of :: "(string \<rightharpoonup> 'v) \<Rightarrow> noderef \<Rightarrow> error + 'v" where
  "value_of venv x = (case venv (ref_name x) of None \<Rightarrow> Inl (KeyError (ref_name x)) | Some v \<Rightarrow> Inr v)"

fun exec_nodes ::
  "(node \<Rightarrow> 'v pyleaf agg list \<Rightarrow> (string \<times> 'v pyleaf agg) list \<Rightarrow> 's \<Rightarrow> error + ('v \<times> 's)) \<Rightarrow>
   node list \<Rightarrow> 'v list \<Rightarrow> (string \<rightharpoonup> 'v) \<Rightarrow> 's \<Rightarrow> error + ('v pyleaf agg \<times> 's)" where
  "exec_nodes sem [] ins venv s = Inr (Leaf NoneLit, s)"
| "exec_nodes sem (nd # rest) ins venv s =
     (if node_op nd = ''placeholder'' then
        (case ins of
           [] \<Rightarrow> Inl TypeError
         | v # ins' \<Rightarrow> exec_nodes sem rest ins' (venv(node_name nd \<mapsto> v)) s)
      else if node_op nd = ''output'' then
        (case node_args nd of
           [] \<Rightarrow> Inl IndexError
         | a # _ \<Rightarrow>
             (case map_arg a (value_of venv) of
                Inl e \<Rightarrow> Inl e
              | Inr r \<Rightarrow> Inr (r, s)))
      else
        (case map_arg_list (node_args nd) (value_of venv) of
           Inl e \<Rightarrow> Inl e
         | Inr vs \<Rightarrow>
             (case map_arg_items (node_kwargs nd) (value_of venv) of
                Inl e \<Rightarrow> Inl e
              | Inr kws \<Rightarrow>
                  (case sem nd vs kws s of
                     Inl e \<Rightarrow> Inl e
                   | Inr (v, s') \<Rightarrow> exec_nodes sem rest ins (venv(node_name nd \<mapsto> v)) s'))))"

definition is_placeholder :: "node \<Rightarrow> bool" where
  "is_placeholder nd = (node_op nd = ''placeholder'')"

definition run_graph ::
  "(node \<Rightarrow> 'v pyleaf agg list \<Rightarrow> (string \<times> 'v pyleaf agg) list \<Rightarrow> 's \<Rightarrow> error + ('v \<times> 's)) \<Rightarrow>
   node list \<Rightarrow> 'v list \<Rightarrow> 's \<Rightarrow> error + ('v pyleaf agg \<times> 's)" where
  "run_graph sem nodes ins s =
     (if length ins \<noteq> length (filter is_placeholder nodes) then Inl TypeError
      else exec_nodes sem nodes ins Map.empty s)"

section \<open>Example graphs\<close>

text \<open>
  A small traced function: two inputs \<open>a\<close> and \<open>b\<close> (of which \<open>b\<close> is unused), a
  captured zero-rank parameter \<open>w\<close>, the product \<open>a * w\<close>, returned.
\<close>

definition float_meta :: "int list \<Rightarrow> tensor_meta option" where
  "float_meta shape = Some \<lparr>tm_shape = shape, tm_dtype = TorchFloat\<rparr>"

definition ex_a :: node where
  "ex_a = \<lparr>node_graph = 0, node_name = ''a'', node_op = ''placeholder'', node_target = StrTarget ''a'',
           node_args = [], node_kwargs = [], node_meta = float_meta [2]\<rparr>"

definition ex_b :: node where
  "ex_b = \<lparr>node_graph = 0, node_name = ''b'', node_op = ''placeholder'', node_target = StrTarget ''b'',
           node_args = [], node_kwargs = [], node_meta = float_meta [2]\<rparr>"

definition ex_w :: node where
  "ex_w = \<lparr>node_graph = 0, node_name = ''w'', node_op = ''get_attr'', node_target = StrTarget ''w'',
           node_args = [], node_kwargs = [], node_meta = float_meta []\<rparr>"

definition ex_mul :: node where
  "ex_mul = \<lparr>node_graph = 0, node_name = ''mul'', node_op = ''call_function'',
             node_target = FnTarget torch_mul,
             node_args = [Leaf (Ref (NodeRef 0 ''a'')), Leaf (Ref (NodeRef 0 ''w''))],
             node_kwargs = [], node_meta = float_meta [2]\<rparr>"

definition ex_output :: node where
  "ex_output = \<lparr>node_graph = 0, node_name = ''output'', node_op = ''output'',
                node_target = StrTarget ''output'', node_args = [Leaf (Ref (NodeRef 0 ''mul''))],
                node_kwargs = [], node_meta = None\<rparr>"

definition ex_graph :: "node list" where
  "ex_graph = [ex_a, ex_b, ex_w, ex_mul, ex_output]"

definition ex_module :: graph_module where
  "ex_module = \<lparr>gm_graph = ex_graph,
                gm_attrs = ModuleObj [(''w'', TensorObj (TorchTensor 0 [] TorchFloat))]\<rparr>"

text \<open>A call of \<open>operator.add\<close> whose inferred element type is a 32-bit integer.\<close>

definition int32_add_node :: node where
  "int32_add_node = \<lparr>node_graph = 0, node_name = ''add'', node_op = ''call_function'',
     node_target = FnTarget operator_add, node_args = [], node_kwargs = [],
     node_meta = Some \<lparr>tm_shape = [2], tm_dtype = TorchOtherDtype ''torch.int32''\<rparr>\<rparr>"

text \<open>The same call of \<open>torch.mul\<close> as \<open>ex_mul\<close>, with a keyword argument.\<close>

definition kwargs_node :: node where
  "kwargs_node = ex_mul\<lparr>node_kwargs := [(''out'', Leaf NoneLit)]\<rparr>"

text \<open>A call without tensor metadata (its result is not a tensor), and a method call.\<close>

definition size_node :: node where
  "size_node = \<lparr>node_graph = 0, node_name = ''add_1'', node_op = ''call_function'',
     node_target = FnTarget operator_add, node_args = [Leaf (IntLit 1), Leaf (IntLit 2)],
     node_kwargs = [], node_meta = None\<rparr>"

definition method_node :: node where
  "method_node = \<lparr>node_graph = 0, node_name = ''relu'', node_op = ''call_method'',
     node_target = StrTarget ''relu'', node_args = [Leaf (Ref (NodeRef 0 ''a''))],
     node_kwargs = [], node_meta = float_meta [2]\<rparr>"

text \<open>A zero-rank input placeholder.\<close>

definition scalar_placeholder :: node where
  "scalar_placeholder = \<lparr>node_graph = 0, node_name = ''s'', node_op = ''placeholder'',
     node_target = StrTarget ''s'', node_args = [], node_kwargs = [], node_meta = float_meta []\<rparr>"

text \<open>What compiling the example module returns when storage is free from address 100.\<close>

definition ex_product :: te_tensor where
  "ex_product =
     Lower ''aten::mul''
       [Leaf (Ref (PlaceholderData (Placeholder ''a'' Float [IntImm 2]))),
        Leaf (Ref (PlaceholderData (Placeholder ''w'' Float [IntImm 1])))]
       [IntImm 2] Float"

definition ex_compiled :: compiled where
  "ex_compiled =
     \<lparr>cg = ConstructCodegen ''llvm''
             (Simplify (RootStmt (PrepareForCodegen (LoopNestSimplify
                (LoopNest (Block [TensorStmt ex_product]) [TensorBuf ex_product])))))
             [BufferArg (OfHandle (PlaceholderData (Placeholder ''w'' Float [IntImm 1]))),
              BufferArg (OfPlaceholder (Placeholder ''a'' Float [IntImm 2])),
              BufferArg (OfPlaceholder (Placeholder ''b'' Float [IntImm 2])),
              BufferArg (OfHandle (TensorBuf ex_product))],
      alloc_results = [TorchTensor 100 [2] TorchFloat],
      module_stuff = [TorchTensor 0 [] TorchFloat]\<rparr>"

text \<open>Runtime tensors for the two inputs, and one owned by the caller.\<close>

definition tensor_a :: torch_tensor where "tensor_a = TorchTensor 10 [2] TorchFloat"
definition tensor_b :: torch_tensor where "tensor_b = TorchTensor 20 [2] TorchFloat"
definition tensor_out :: torch_tensor where "tensor_out = TorchTensor 30 [2] TorchFloat"

text \<open>
  A naming policy for the examples: the candidate itself when it is unused. The first
  two nodes of the example graph copied into graph 1, and the first four.
\<close>

definition example_create_name :: "string list \<Rightarrow> string \<Rightarrow> string" where
  "example_create_name used candidate =
     (if candidate \<in> set used then candidate @ ''_1'' else candidate)"

definition output_of :: "nat \<Rightarrow> string \<Rightarrow> node" where
  "output_of g nm =
     \<lparr>node_graph = g, node_name = ''output'', node_op = ''output'', node_target = StrTarget ''output'',
      node_args = [Leaf (Ref (NodeRef g nm))], node_kwargs = [], node_meta = None\<rparr>"

definition ex_truncated2 :: "node list" where
  "ex_truncated2 = [ex_a\<lparr>node_graph := 1\<rparr>, ex_b\<lparr>node_graph := 1\<rparr>, output_of 1 ''b'']"

definition ex_truncated4 :: "node list" where
  "ex_truncated4 =
     [ex_a\<lparr>node_graph := 1\<rparr>, ex_b\<lparr>node_graph := 1\<rparr>, ex_w\<lparr>node_graph := 1\<rparr>,
      ex_mul\<lparr>node_graph := 1,
             node_args := [Leaf (Ref (NodeRef 1 ''a'')), Leaf (Ref (NodeRef 1 ''w''))]\<rparr>,
      output_of 1 ''mul'']"

text \<open>
  A meaning of the nodes for the examples. A value is an integer, the address of a
  tensor with one element; the store gives the element at each address. A captured
  parameter is at address 0. The method \<open>add_\<close> adds its second argument to its first
  in place and returns the first. The other calls do not touch the store: with one
  argument the result is the argument plus one, with two arguments their product.
  The example graph without its unused input.
\<close>

definition example_sem ::
  "node \<Rightarrow> int pyleaf agg list \<Rightarrow> (string \<times> int pyleaf agg) list \<Rightarrow> (int \<Rightarrow> int) \<Rightarrow>
   error + (int \<times> (int \<Rightarrow> int))" where
  "example_sem nd vs kws s =
     (if node_op nd = ''get_attr'' then Inr (0, s)
      else if node_target nd = StrTarget ''add_'' then
        (case vs of
           [Leaf (Ref x), Leaf (Ref y)] \<Rightarrow> Inr (x, s(x := s x + s y))
         | _ \<Rightarrow> Inl TypeError)
      else
        (case vs of
           [Leaf (Ref x)] \<Rightarrow> Inr (x + 1, s)
         | [Leaf (Ref x), Leaf (Ref y)] \<Rightarrow> Inr (x * y, s)
         | _ \<Rightarrow> Inl TypeError))"

definition ex_cleaned :: "node list" where
  "ex_cleaned = [ex_a, ex_w, ex_mul, ex_output]"

text \<open>
  A graph in which \<open>cos\<close> is used only by \<open>sin\<close>, and \<open>sin\<close> by nothing: the function
  returns its input.
\<close>

definition ex_cos :: node where
  "ex_cos = \<lparr>node_graph = 0, node_name = ''cos'', node_op = ''call_function'',
             node_target = FnTarget torch_cos, node_args = [Leaf (Ref (NodeRef 0 ''a''))],
             node_kwargs = [], node_meta = float_meta [2]\<rparr>"

definition ex_sin :: node where
  "ex_sin = \<lparr>node_graph = 0, node_name = ''sin'', node_op = ''call_function'',
             node_target = FnTarget torch_sin, node_args = [Leaf (Ref (NodeRef 0 ''cos''))],
             node_kwargs = [], node_meta = float_meta [2]\<rparr>"

definition ex_return_a :: node where
  "ex_return_a = \<lparr>node_graph = 0, node_name = ''output'', node_op = ''output'',
                  node_target = StrTarget ''output'', node_args = [Leaf (Ref (NodeRef 0 ''a''))],
                  node_kwargs = [], node_meta = None\<rparr>"

definition ex_chain :: "node list" where
  "ex_chain = [ex_a, ex_cos, ex_sin, ex_return_a]"

text \<open>
  The graph of \<open>def forward(a, b): a.add_(b); return a\<close>: the in-place addition has no
  consumer. What \<open>remove_args\<close> leaves of it.
\<close>

definition ex_add_inplace :: node where
  "ex_add_inplace = \<lparr>node_graph = 0, node_name = ''add_'', node_op = ''call_method'',
     node_target = StrTarget ''add_'',
     node_args = [Leaf (Ref (NodeRef 0 ''a'')), Leaf (Ref (NodeRef 0 ''b''))],
     node_kwargs = [], node_meta = float_meta [2]\<rparr>"

definition ex_inplace :: "node list" where
  "ex_inplace = [ex_a, ex_b, ex_add_inplace, ex_return_a]"

definition ex_inplace_cleaned :: "node list" where
  "ex_inplace_cleaned = [ex_a, ex_b, ex_return_a]"

section \<open>Vocabulary of the properties\<close>

text \<open>
  The \<open>te.Placeholder\<close> an input placeholder is bound to, and the one a captured-state
  node is bound to, when the node has tensor metadata of a supported element type.
\<close>

definition input_placeholder :: "node \<Rightarrow> te_placeholder option" where
  "input_placeholder nd =
     (case node_meta nd of
        None \<Rightarrow> None
      | Some tm \<Rightarrow>
          (case get_te_shapes (tm_shape tm) of
             Inl _ \<Rightarrow> None
           | Inr shapes \<Rightarrow>
               (case get_nnc_type (tm_dtype tm) of
                  Inl _ \<Rightarrow> None
                | Inr ty \<Rightarrow> Some (Placeholder (node_name nd) ty shapes))))"

definition attr_placeholder :: "node \<Rightarrow> te_placeholder option" where
  "attr_placeholder nd =
     (case node_meta nd of
        None \<Rightarrow> None
      | Some tm \<Rightarrow>
          (case get_te_shapes (process_shape (tm_shape tm)) of
             Inl _ \<Rightarrow> None
           | Inr shapes \<Rightarrow>
               (case get_nnc_type (tm_dtype tm) of
                  Inl _ \<Rightarrow> None
                | Inr ty \<Rightarrow> Some (Placeholder (node_name nd) ty shapes))))"

definition is_get_attr :: "node \<Rightarrow> bool" where
  "is_get_attr nd = (node_op nd = ''get_attr'')"

text \<open>The errors that looking up the operands' shapes and lowering a call can raise.\<close>

definition lowering_errors :: "error set" where
  "lowering_errors =
     {KeyError ''tensor_meta'', AttributeError, IndexError, TypeError, ValueError, RuntimeError ''nyi''}"

text \<open>
  The generated kernel is outside the repository. A kernel with \<open>n\<close> outputs that
  respects the calling convention writes to the storage of the last \<open>n\<close> buffers it is
  passed, and to no other address.
\<close>

definition writes_last ::
  "nat \<Rightarrow> (torch_tensor list \<Rightarrow> (nat \<Rightarrow> 'v) \<Rightarrow> (nat \<Rightarrow> 'v)) \<Rightarrow> bool" where
  "writes_last n kern =
     (\<forall>bufs s a. a \<notin> addr ` set (drop (length bufs - n) bufs) \<longrightarrow> kern bufs s a = s a)"

text \<open>
  A kernel for the examples: it stores the contents of its first buffer in its last
  buffer.
\<close>

definition copy_kernel :: "codegen \<Rightarrow> torch_tensor list \<Rightarrow> (nat \<Rightarrow> int) \<Rightarrow> (nat \<Rightarrow> int)" where
  "copy_kernel c bufs s = (if bufs = [] then s else s(addr (last bufs) := s (addr (hd bufs))))"

text \<open>
  A graph is in definition order when every node among the arguments of a node is a
  node defined earlier in the graph; tracing produces such graphs, with distinct node
  names.
\<close>

fun defined_before :: "noderef list \<Rightarrow> node list \<Rightarrow> bool" where
  "defined_before seen [] = True"
| "defined_before seen (n # ns) = (node_refs n \<subseteq> set seen \<and> defined_before (seen @ [ref_of n]) ns)"

definition traced :: "node list \<Rightarrow> bool" where
  "traced model = (distinct (map node_name model) \<and> defined_before [] model)"

fun index_of :: "'a list \<Rightarrow> 'a \<Rightarrow> nat" where
  "index_of [] x = 0"
| "index_of (y # ys) x = (if x = y then 0 else Suc (index_of ys x))"

text \<open>
  The image of a node of \<open>model\<close> in a copy of the graph: the node of \<open>new_graph\<close> at
  the same position. \<open>rewired img nd cp\<close>: \<open>cp\<close> has the operation, target and
  metadata of \<open>nd\<close> and its arguments, with every node replaced by its image.
\<close>

definition image_in :: "node list \<Rightarrow> node list \<Rightarrow> noderef \<Rightarrow> noderef" where
  "image_in model new_graph x = ref_of (new_graph ! index_of (map ref_of model) x)"

definition rewired :: "(noderef \<Rightarrow> noderef) \<Rightarrow> node \<Rightarrow> node \<Rightarrow> bool" where
  "rewired img nd cp =
     (node_op cp = node_op nd \<and> node_target cp = node_target nd \<and> node_meta cp = node_meta nd
      \<and> node_args cp = map (map_agg (map_pyleaf img)) (node_args nd)
      \<and> node_kwargs cp = map (\<lambda>kv. (fst kv, map_agg (map_pyleaf img) (snd kv))) (node_kwargs nd))"

definition is_output :: "node \<Rightarrow> bool" where
  "is_output nd = (node_op nd = ''output'')"

text \<open>
  A node is unused when no node of the graph has it among its arguments and it is not
  an output node. \<open>surviving_inputs keep model ins\<close> are the positional inputs \<open>ins\<close>
  of \<open>model\<close> without those bound to placeholders that \<open>keep\<close> rejects.
\<close>

definition unused :: "node list \<Rightarrow> node \<Rightarrow> bool" where
  "unused model n = (users model n = [] \<and> node_op n \<noteq> ''output'')"

text \<open>A node has no side effect under \<open>sem\<close> when it never changes the store.\<close>

definition side_effect_free ::
  "(node \<Rightarrow> 'v pyleaf agg list \<Rightarrow> (string \<times> 'v pyleaf agg) list \<Rightarrow> 's \<Rightarrow> error + ('v \<times> 's)) \<Rightarrow>
   node \<Rightarrow> bool" where
  "side_effect_free sem nd = (\<forall>vs kws s v s'. sem nd vs kws s = Inr (v, s') \<longrightarrow> s' = s)"

fun surviving_inputs :: "(node \<Rightarrow> bool) \<Rightarrow> node list \<Rightarrow> 'v list \<Rightarrow> 'v list" where
  "surviving_inputs keep [] ins = []"
| "surviving_inputs keep (nd # rest) ins =
     (if is_placeholder nd then
        (case ins of
           [] \<Rightarrow> []
         | v # ins' \<Rightarrow>
             (if keep nd then v # surviving_inputs keep rest ins'
              else surviving_inputs keep rest ins'))
      else surviving_inputs keep rest ins)"

section \<open>Properties\<close>

subsection \<open>The broadcast index helper\<close>

lemma index_or_broadcast_loop_eq:
  "index_or_broadcast_loop shape idx args out =
     Inr (out @ map (\<lambda>i. if shape ! i = 1 then IntImm 0 else args ! (i - idx))
                   [idx ..< min (length shape) (idx + length args)])"
proof (induction args arbitrary: idx out)
  case Nil
  then show ?case by simp
next
  case (Cons arg rest)
  show ?case
  proof (cases "idx \<ge> length shape")
    case True
    then show ?thesis by (simp add: Cons.IH)
  next
    case False
    then have lt: "idx < min (length shape) (idx + length (arg # rest))" by simp
    have m: "min (length shape) (Suc idx + length rest) = min (length shape) (idx + length (arg # rest))"
      by simp
    have tl: "map (\<lambda>i. if shape ! i = 1 then IntImm 0 else (arg # rest) ! (i - idx))
                [Suc idx ..< min (length shape) (idx + length (arg # rest))]
            = map (\<lambda>i. if shape ! i = 1 then IntImm 0 else rest ! (i - Suc idx))
                [Suc idx ..< min (length shape) (idx + length (arg # rest))]"
      by (rule map_cong) (auto simp: nth_Cons')
    show ?thesis
      using False
      by (subst upt_conv_Cons [OF lt]) (simp add: Cons.IH m tl to_expr_def expr_int_def del: upt_Suc)
  qed
qed

lemma index_or_broadcast_eq:
  "index_or_broadcast shape args =
     Inr (map (\<lambda>i. if shape ! i = 1 then IntImm 0 else args ! i)
              [0 ..< min (length shape) (length args)])"
  by (simp add: index_or_broadcast_def index_or_broadcast_loop_eq)

text \<open>
  Claim C1. For every operand shape and every tuple of output indices,
  \<open>index_or_broadcast\<close> returns (it never raises) a list with
  \<open>min (rank of the operand) (number of output indices)\<close> entries; entry \<open>idx\<close> is the
  constant 0 when the operand's extent on axis \<open>idx\<close> is exactly 1 and the output index
  itself otherwise. Output indices at positions at or beyond the operand's rank are
  skipped: replacing one of them changes nothing. Replacing the output index on an axis
  of extent 1 changes nothing either, so the operand element addressed does not depend
  on it.
\<close>

theorem index_or_broadcast_broadcasts:
  "\<exists>out. index_or_broadcast shape args = Inr out
     \<and> length out = min (length shape) (length args)
     \<and> (\<forall>idx < length out. out ! idx = (if shape ! idx = 1 then IntImm 0 else args ! idx))
     \<and> (\<forall>i v. i < length shape \<longrightarrow> shape ! i = 1 \<longrightarrow>
            index_or_broadcast shape (args[i := v]) = Inr out)
     \<and> (\<forall>i v. length shape \<le> i \<longrightarrow> index_or_broadcast shape (args[i := v]) = Inr out)"
proof -
  let ?n = "min (length shape) (length args)"
  let ?out = "map (\<lambda>i. if shape ! i = 1 then IntImm 0 else args ! i) [0 ..< ?n]"
  have same: "index_or_broadcast shape (args[i := v]) = Inr ?out"
    if "i < length shape \<longrightarrow> shape ! i = 1" for i v
  proof -
    have "map (\<lambda>j. if shape ! j = 1 then IntImm 0 else args[i := v] ! j) [0 ..< ?n] = ?out"
    proof (intro map_cong refl)
      fix j assume "j \<in> set [0 ..< ?n]"
      then have j: "j < length shape" by simp
      show "(if shape ! j = 1 then IntImm 0 else args[i := v] ! j) =
            (if shape ! j = 1 then IntImm 0 else args ! j)"
      proof (cases "j = i")
        case True
        with that j show ?thesis by simp
      next
        case False
        then show ?thesis by simp
      qed
    qed
    then show ?thesis by (simp add: index_or_broadcast_eq)
  qed
  have "index_or_broadcast shape args = Inr ?out" by (rule index_or_broadcast_eq)
  moreover have "length ?out = ?n" by simp
  moreover have "\<forall>idx < length ?out. ?out ! idx = (if shape ! idx = 1 then IntImm 0 else args ! idx)"
    by simp
  moreover have "\<forall>i v. i < length shape \<longrightarrow> shape ! i = 1 \<longrightarrow>
      index_or_broadcast shape (args[i := v]) = Inr ?out"
    using same by blast
  moreover have "\<forall>i v. length shape \<le> i \<longrightarrow> index_or_broadcast shape (args[i := v]) = Inr ?out"
    using same by (meson not_le)
  ultimately show ?thesis by blast
qed

theorem index_or_broadcast_broadcasts_witness:
  "index_or_broadcast [3, 1] [Var ''i0'', Var ''i1'', Var ''i2''] = Inr [Var ''i0'', IntImm 0]
   \<and> index_or_broadcast [3, 1] ([Var ''i0'', Var ''i1'', Var ''i2''][1 := Var ''j'']) =
       Inr [Var ''i0'', IntImm 0]
   \<and> index_or_broadcast [3, 1] ([Var ''i0'', Var ''i1'', Var ''i2''][2 := Var ''j'']) =
       Inr [Var ''i0'', IntImm 0]"
proof -
  obtain out where o: "index_or_broadcast [3, 1] [Var ''i0'', Var ''i1'', Var ''i2''] = Inr out"
    and b: "\<forall>i v. i < length [3, 1 :: int] \<longrightarrow> [3, 1 :: int] ! i = 1 \<longrightarrow>
            index_or_broadcast [3, 1] ([Var ''i0'', Var ''i1'', Var ''i2''][i := v]) = Inr out"
    and s: "\<forall>i v. length [3, 1 :: int] \<le> i \<longrightarrow>
            index_or_broadcast [3, 1] ([Var ''i0'', Var ''i1'', Var ''i2''][i := v]) = Inr out"
    using index_or_broadcast_broadcasts [of "[3, 1]" "[Var ''i0'', Var ''i1'', Var ''i2'']"]
    by blast
  have v: "index_or_broadcast [3, 1] [Var ''i0'', Var ''i1'', Var ''i2''] = Inr [Var ''i0'', IntImm 0]"
    by (simp add: index_or_broadcast_def to_expr_def expr_int_def)
  with o have out: "out = [Var ''i0'', IntImm 0]" by simp
  have "index_or_broadcast [3, 1] ([Var ''i0'', Var ''i1'', Var ''i2''][1 := Var ''j'']) = Inr out"
    using b [rule_format, of 1 "Var ''j''"] by simp
  moreover have "index_or_broadcast [3, 1] ([Var ''i0'', Var ''i1'', Var ''i2''][2 := Var ''j'']) = Inr out"
    using s [rule_format, of 2 "Var ''j''"] by simp
  ultimately show ?thesis using v out by simp
qed

subsection \<open>Errors of the lowering rules\<close>

lemma lowering_functions_cases:
  "lowering_functions fn = Some rule \<Longrightarrow>
     rule = ones_like_lower \<or> rule = dot_lower \<or> rule = mv_lower"
  by (auto simp: lowering_functions_def split: if_splits)

lemma get_nnc_type_error: "get_nnc_type d = Inl e \<Longrightarrow> e = RuntimeError ''nyi''"
  by (auto simp: get_nnc_type_def split: if_splits)

lemma shape_dtype_at_error: "shape_dtype_at s i = Inl e \<Longrightarrow> e = TypeError \<or> e = IndexError"
  by (auto simp: shape_dtype_at_def split: if_splits agg.splits option.splits)

lemma expr_int_error: "expr_int i = Inl e \<Longrightarrow> e = TypeError"
  by (auto simp: expr_int_def split: if_splits)

lemma get_te_shapes_error: "get_te_shapes shape = Inl e \<Longrightarrow> e = TypeError"
  by (induction shape) (auto split: sum.splits dest: expr_int_error)

lemma get_dim_args_loop_error: "get_dim_args_loop dims acc = Inl e \<Longrightarrow> e = TypeError"
  by (induction dims arbitrary: acc) (auto split: sum.splits dest: expr_int_error)

lemma ones_like_lower_error: "ones_like_lower nm sh is as = Inl e \<Longrightarrow> e \<in> lowering_errors"
  by (auto simp: ones_like_lower_def ones_like_f_def to_expr_def get_dim_args_def lowering_errors_def
      split: sum.splits dest: get_dim_args_loop_error)

lemma dot_lower_error: "dot_lower nm sh is as = Inl e \<Longrightarrow> e \<in> lowering_errors"
  by (auto simp: dot_lower_def lowering_errors_def Let_def split: sum.splits prod.splits
      dest: get_nnc_type_error shape_dtype_at_error get_te_shapes_error expr_int_error)

lemma mv_lower_error: "mv_lower nm sh is as = Inl e \<Longrightarrow> e \<in> lowering_errors"
  by (auto simp: mv_lower_def lowering_errors_def Let_def
      split: sum.splits prod.splits if_splits list.splits
      dest: get_nnc_type_error shape_dtype_at_error get_te_shapes_error expr_int_error)

lemma operand_shape_total: "\<exists>y. operand_shape nodes a = Inr y"
  by (auto simp: operand_shape_def split: pyleaf.splits option.splits)

lemma map_aggregate_total:
  "(\<forall>x. \<exists>y. fn x = Inr y) \<longrightarrow> (\<exists>y. map_aggregate a fn = Inr y)"
  "(\<forall>x. \<exists>y. fn x = Inr y) \<longrightarrow> (\<exists>ys. map_aggregate_list as fn = Inr ys)"
  "(\<forall>x. \<exists>y. fn x = Inr y) \<longrightarrow> (\<exists>ys. map_aggregate_items kvs fn = Inr ys)"
proof (induction a fn and as fn and kvs fn
    rule: map_aggregate_map_aggregate_list_map_aggregate_items.induct)
  case (1 x fn)
  show ?case
  proof
    assume "\<forall>x. \<exists>y. fn x = Inr y"
    then obtain y where "fn x = Inr y" by blast
    then show "\<exists>y. map_aggregate (Leaf x) fn = Inr y" by simp
  qed
qed (auto split: sum.splits)

lemma lower_function_error:
  assumes "lower_function nodes nd opr nnc_args args = Inl e"
  shows "e \<in> lowering_errors"
proof -
  obtain inp_shapes where i: "map_aggregate_list args (operand_shape nodes) = Inr inp_shapes"
    using map_aggregate_total(2) [of "operand_shape nodes" args] operand_shape_total by blast
  show ?thesis
    using assms i
    apply (simp add: lower_function_def Let_def
        split: sum.splits option.splits target.splits lowered.splits)
      apply (auto dest!: lowering_functions_cases get_nnc_type_error get_te_shapes_error
        simp: lowering_errors_def)
      apply (auto dest: ones_like_lower_error dot_lower_error mv_lower_error
        simp: lowering_errors_def)
    done
qed

lemma lookup_env_error: "lookup_env e l = Inl err \<Longrightarrow> \<exists>k. err = KeyError k"
proof -
  have leaf: "\<And>x err. on_nodes (env_at e) x = Inl err \<Longrightarrow> \<exists>k. err = KeyError k"
    by (auto simp: on_nodes_def env_at_def split: pyleaf.splits option.splits sum.splits)
  have "(\<forall>err. map_aggregate a (on_nodes (env_at e)) = Inl err \<longrightarrow> (\<exists>k. err = KeyError k))"
    "(\<forall>err. map_aggregate_list as (on_nodes (env_at e)) = Inl err \<longrightarrow> (\<exists>k. err = KeyError k))"
    "(\<forall>err. map_aggregate_items kvs (on_nodes (env_at e)) = Inl err \<longrightarrow> (\<exists>k. err = KeyError k))"
    for a :: argument and as kvs
    by (induction a "on_nodes (env_at e)" and as "on_nodes (env_at e)" and kvs "on_nodes (env_at e)"
        rule: map_aggregate_map_aggregate_list_map_aggregate_items.induct)
      (auto split: sum.splits dest: leaf)
  then show "lookup_env e l = Inl err \<Longrightarrow> \<exists>k. err = KeyError k"
    by (simp add: lookup_env_def)
qed

subsection \<open>The dot-product rule\<close>

text \<open>
  Claim C8. The rule registered for \<open>torch.ops.aten.dot\<close> is \<open>dot_lower\<close>. Whenever the
  first operand is a node with tensor metadata (shape \<open>shape0\<close>, dtype \<open>dtype0\<close>) of a
  supported element type, the rule makes two generic lowerings: \<open>aten::mul\<close> of the
  operands, over the first operand's shape and dtype, and \<open>aten::sum\<close> of the buffer of
  that product, over the output shape and the same dtype. It returns the buffer of the
  sum with exactly the two statements, the product's first. The driver's
  \<open>lower_function\<close> hands that buffer and those statements on unchanged. The only
  other outcome is the \<open>TypeError\<close> of \<open>te.ExprHandle.int\<close> on an extent of one
  of the two shapes that does not fit 32 bits.
\<close>

theorem dot_lower_mul_then_sum:
  assumes "get_nnc_type dtype0 = Inr ty"
    and "mul_te = Lower ''aten::mul'' args mul_shape ty"
    and "res = Lower ''aten::sum'' [Leaf (Ref (TensorBuf mul_te))] sum_shape ty"
  shows "lowering_functions aten_dot = Some dot_lower
    \<and> (get_te_shapes shape0 = Inr mul_shape \<and> get_te_shapes out_shape = Inr sum_shape \<longrightarrow>
        dot_lower nm out_shape (Leaf (Some (shape0, dtype0)) # others) args =
          Inr (LoweredPair (TensorBuf res) [TensorStmt mul_te, TensorStmt res]))
    \<and> (get_te_shapes shape0 = Inr mul_shape \<and> get_te_shapes out_shape = Inr sum_shape
        \<and> node_meta nd = Some tm \<and> out_shape = process_shape (tm_shape tm) \<and>
        map_aggregate_list operands (operand_shape nodes) = Inr (Leaf (Some (shape0, dtype0)) # others)
        \<longrightarrow> lower_function nodes nd (FnTarget aten_dot) args operands =
              Inr (TensorBuf res, [TensorStmt mul_te, TensorStmt res]))
    \<and> ((\<exists>e. get_te_shapes shape0 = Inl e) \<or> (\<exists>e. get_te_shapes out_shape = Inl e) \<longrightarrow>
        dot_lower nm out_shape (Leaf (Some (shape0, dtype0)) # others) args = Inl TypeError)"
proof -
  have reg: "lowering_functions aten_dot = Some dot_lower"
    by (simp add: lowering_functions_def aten_dot_def aten_ones_like_def)
  have rule: "dot_lower nm' out_shape (Leaf (Some (shape0, dtype0)) # others) args =
        Inr (LoweredPair (TensorBuf res) [TensorStmt mul_te, TensorStmt res])"
    if "get_te_shapes shape0 = Inr mul_shape" "get_te_shapes out_shape = Inr sum_shape" for nm'
    using assms that by (simp add: dot_lower_def shape_dtype_at_def Let_def)
  have "lower_function nodes nd (FnTarget aten_dot) args operands =
          Inr (TensorBuf res, [TensorStmt mul_te, TensorStmt res])"
    if "get_te_shapes shape0 = Inr mul_shape" "get_te_shapes out_shape = Inr sum_shape"
      "node_meta nd = Some tm" "out_shape = process_shape (tm_shape tm)"
      "map_aggregate_list operands (operand_shape nodes) = Inr (Leaf (Some (shape0, dtype0)) # others)"
    using that(3-5) rule [OF that(1,2), of "node_name nd"] reg by (simp add: lower_function_def)
  moreover have "dot_lower nm out_shape (Leaf (Some (shape0, dtype0)) # others) args = Inl TypeError"
    if "(\<exists>e. get_te_shapes shape0 = Inl e) \<or> (\<exists>e. get_te_shapes out_shape = Inl e)"
    using that assms(1)
    by (auto simp: dot_lower_def shape_dtype_at_def Let_def split: sum.splits
        dest: get_te_shapes_error)
  ultimately show ?thesis using reg rule by blast
qed

theorem dot_lower_mul_then_sum_witness:
  "dot_lower ''dot'' [1] [Leaf (Some ([3], TorchFloat)), Leaf (Some ([3], TorchFloat))]
     [Leaf (Ref (BufHandle ''x'' [IntImm 3] Float)), Leaf (Ref (BufHandle ''y'' [IntImm 3] Float))] =
   Inr (LoweredPair
     (TensorBuf (Lower ''aten::sum''
        [Leaf (Ref (TensorBuf (Lower ''aten::mul''
           [Leaf (Ref (BufHandle ''x'' [IntImm 3] Float)), Leaf (Ref (BufHandle ''y'' [IntImm 3] Float))]
           [IntImm 3] Float)))]
        [IntImm 1] Float))
     [TensorStmt (Lower ''aten::mul''
        [Leaf (Ref (BufHandle ''x'' [IntImm 3] Float)), Leaf (Ref (BufHandle ''y'' [IntImm 3] Float))]
        [IntImm 3] Float),
      TensorStmt (Lower ''aten::sum''
        [Leaf (Ref (TensorBuf (Lower ''aten::mul''
           [Leaf (Ref (BufHandle ''x'' [IntImm 3] Float)), Leaf (Ref (BufHandle ''y'' [IntImm 3] Float))]
           [IntImm 3] Float)))]
        [IntImm 1] Float)])
   \<and> dot_lower ''dot'' [1] [Leaf (Some ([2 ^ 31], TorchFloat)), Leaf (Some ([2 ^ 31], TorchFloat))]
     [Leaf (Ref (BufHandle ''x'' [IntImm 3] Float)), Leaf (Ref (BufHandle ''y'' [IntImm 3] Float))] =
     Inl TypeError"
proof -
  have t: "get_nnc_type TorchFloat = Inr Float" by (simp add: get_nnc_type_def)
  have s: "get_te_shapes [3] = Inr [IntImm 3] \<and> get_te_shapes [1] = Inr [IntImm 1]"
    by (simp add: expr_int_def)
  have b: "(\<exists>e. get_te_shapes [2 ^ 31] = Inl e) \<or> (\<exists>e. get_te_shapes [1] = Inl e)"
    by (simp add: expr_int_def)
  have 1: "dot_lower ''dot'' [1] (Leaf (Some ([3], TorchFloat)) # [Leaf (Some ([3], TorchFloat))])
     [Leaf (Ref (BufHandle ''x'' [IntImm 3] Float)), Leaf (Ref (BufHandle ''y'' [IntImm 3] Float))] =
     Inr (LoweredPair
       (TensorBuf (Lower ''aten::sum''
          [Leaf (Ref (TensorBuf (Lower ''aten::mul''
             [Leaf (Ref (BufHandle ''x'' [IntImm 3] Float)), Leaf (Ref (BufHandle ''y'' [IntImm 3] Float))]
             [IntImm 3] Float)))]
          [IntImm 1] Float))
       [TensorStmt (Lower ''aten::mul''
          [Leaf (Ref (BufHandle ''x'' [IntImm 3] Float)), Leaf (Ref (BufHandle ''y'' [IntImm 3] Float))]
          [IntImm 3] Float),
        TensorStmt (Lower ''aten::sum''
          [Leaf (Ref (TensorBuf (Lower ''aten::mul''
             [Leaf (Ref (BufHandle ''x'' [IntImm 3] Float)), Leaf (Ref (BufHandle ''y'' [IntImm 3] Float))]
             [IntImm 3] Float)))]
          [IntImm 1] Float)])"
    using dot_lower_mul_then_sum [OF t refl refl, where nm = "''dot''" and out_shape = "[1]"
        and ?shape0.0 = "[3]" and others = "[Leaf (Some ([3], TorchFloat))]"
        and mul_shape = "[IntImm 3]" and sum_shape = "[IntImm 1]" and args =
        "[Leaf (Ref (BufHandle ''x'' [IntImm 3] Float)), Leaf (Ref (BufHandle ''y'' [IntImm 3] Float))]"]
      s
    by blast
  have 2: "dot_lower ''dot'' [1] (Leaf (Some ([2 ^ 31], TorchFloat)) # [Leaf (Some ([2 ^ 31], TorchFloat))])
     [Leaf (Ref (BufHandle ''x'' [IntImm 3] Float)), Leaf (Ref (BufHandle ''y'' [IntImm 3] Float))] =
     Inl TypeError"
    using dot_lower_mul_then_sum [OF t refl refl, where nm = "''dot''" and out_shape = "[1]"
        and ?shape0.0 = "[2 ^ 31]" and others = "[Leaf (Some ([2 ^ 31], TorchFloat))]" and args =
        "[Leaf (Ref (BufHandle ''x'' [IntImm 3] Float)), Leaf (Ref (BufHandle ''y'' [IntImm 3] Float))]"]
      b
    by blast
  from 1 2 show ?thesis by simp
qed

subsection \<open>Errors of the driver\<close>

lemma get_te_type_error:
  "get_te_type nd = Inl e \<Longrightarrow> e = KeyError ''tensor_meta'' \<or> e = RuntimeError ''nyi''"
  by (auto simp: get_te_type_def split: option.splits dest: get_nnc_type_error)

lemma output_metas_error:
  "output_metas nodes as = Inl e \<Longrightarrow> e = KeyError ''tensor_meta'' \<or> e = AttributeError"
proof (induction as)
  case Nil
  then show ?case by simp
next
  case (Cons a as)
  have "output_meta nodes a = Inl e \<Longrightarrow> e = KeyError ''tensor_meta'' \<or> e = AttributeError"
    by (auto simp: output_meta_def split: agg.splits pyleaf.splits option.splits)
  with Cons show ?case by (auto split: sum.splits)
qed

lemma handles_of_error: "handles_of xs = Inl e \<Longrightarrow> e = AttributeError"
  by (induction xs rule: handles_of.induct) (auto split: sum.splits)

lemma compile_nodes_append:
  "compile_nodes nodes (pre @ rest) st =
     (case compile_nodes nodes pre st of Inl e \<Rightarrow> Inl e | Inr st' \<Rightarrow> compile_nodes nodes rest st')"
  by (induction pre arbitrary: st) (auto split: sum.splits)

lemma compile_aborts:
  assumes "gm_graph m = pre @ nd # rest"
    and "compile_nodes (gm_graph m) pre init_cstate = Inr st"
    and "compile_node (gm_graph m) st nd = Inl e"
  shows "nnc_compile m next = Inl e"
  using assms by (simp add: nnc_compile_def compile_nodes_append)

text \<open>The errors a node of one of the four known kinds can raise.\<close>

lemma compile_node_known_kind_error:
  assumes "compile_node nodes st nd = Inl e"
    and "node_op nd \<in> {''placeholder'', ''call_function'', ''output'', ''get_attr''}"
  shows "e = RuntimeError ''kwargs nyi'' \<or> (\<exists>k. e = KeyError k) \<or> e \<in> lowering_errors"
proof -
  consider (p) "node_op nd = ''placeholder''" | (c) "node_op nd = ''call_function''"
    | (o) "node_op nd = ''output''" | (g) "node_op nd = ''get_attr''"
    using assms(2) by blast
  then show ?thesis
  proof cases
    case p
    with assms(1) show ?thesis
      by (auto simp: compile_node_def Let_def lowering_errors_def
          split: option.splits sum.splits dest: get_te_type_error get_te_shapes_error)
  next
    case c
    with assms(1) show ?thesis
      by (auto simp: compile_node_def split: if_splits sum.splits prod.splits
          dest: lookup_env_error lower_function_error)
  next
    case o
    with assms(1) show ?thesis
      by (auto simp: compile_node_def Let_def lowering_errors_def
          split: list.splits sum.splits
          dest: lookup_env_error output_metas_error handles_of_error)
  next
    case g
    with assms(1) show ?thesis
      by (auto simp: compile_node_def Let_def lowering_errors_def
          split: option.splits sum.splits dest: get_te_type_error get_te_shapes_error)
  qed
qed

subsection \<open>Function calls without tensor metadata\<close>

text \<open>
  Claim C9. A \<open>call_function\<close> node without tensor metadata whose target is neither
  \<open>getattr\<close> nor \<open>operator.getitem\<close> is skipped: the loop body raises nothing and
  leaves the environment, the statements and every other variable as they were, and the
  loop goes on with the next node. The error \<open>not yet implemented\<close> is raised exactly
  for the nodes whose kind is none of \<open>placeholder\<close>, \<open>call_function\<close>, \<open>output\<close>
  and \<open>get_attr\<close>.
\<close>

theorem call_without_metadata_skipped:
  "(node_op nd = ''call_function'' \<and> node_meta nd = None
      \<and> node_target nd \<noteq> FnTarget builtin_getattr \<and> node_target nd \<noteq> FnTarget operator_getitem
      \<longrightarrow> compile_node nodes st nd = Inr st
          \<and> compile_nodes nodes (nd # rest) st = compile_nodes nodes rest st)
   \<and> (compile_node nodes st nd = Inl (RuntimeError ''not yet implemented'')
        \<longleftrightarrow> node_op nd \<notin> {''placeholder'', ''call_function'', ''output'', ''get_attr''})"
proof -
  have skip: "compile_node nodes st nd = Inr st"
    if "node_op nd = ''call_function''" "node_meta nd = None"
    using that by (simp add: compile_node_def)
  have nyi: "compile_node nodes st nd = Inl (RuntimeError ''not yet implemented'')"
    if "node_op nd \<notin> {''placeholder'', ''call_function'', ''output'', ''get_attr''}"
    using that by (simp add: compile_node_def)
  have known: "compile_node nodes st nd \<noteq> Inl (RuntimeError ''not yet implemented'')"
    if "node_op nd \<in> {''placeholder'', ''call_function'', ''output'', ''get_attr''}"
  proof
    assume "compile_node nodes st nd = Inl (RuntimeError ''not yet implemented'')"
    from compile_node_known_kind_error [OF this that] show False
      by (simp add: lowering_errors_def)
  qed
  from skip nyi known show ?thesis by auto
qed

theorem call_without_metadata_skipped_witness:
  "node_op size_node = ''call_function'' \<and> node_meta size_node = None
   \<and> node_target size_node \<noteq> FnTarget builtin_getattr
   \<and> node_target size_node \<noteq> FnTarget operator_getitem
   \<and> compile_node ex_graph init_cstate size_node = Inr init_cstate
   \<and> compile_nodes ex_graph [size_node, method_node] init_cstate =
       Inl (RuntimeError ''not yet implemented'')
   \<and> node_op method_node = ''call_method''"
proof -
  have h: "node_op size_node = ''call_function'' \<and> node_meta size_node = None
      \<and> node_target size_node \<noteq> FnTarget builtin_getattr
      \<and> node_target size_node \<noteq> FnTarget operator_getitem"
    by (simp add: size_node_def operator_add_def builtin_getattr_def operator_getitem_def)
  have m: "node_op method_node \<notin> {''placeholder'', ''call_function'', ''output'', ''get_attr''}"
    by (simp add: method_node_def)
  have s: "compile_node ex_graph init_cstate size_node = Inr init_cstate
      \<and> compile_nodes ex_graph (size_node # [method_node]) init_cstate =
          compile_nodes ex_graph [method_node] init_cstate"
    using call_without_metadata_skipped [of size_node ex_graph init_cstate "[method_node]"] h
    by blast
  have "compile_node ex_graph init_cstate method_node = Inl (RuntimeError ''not yet implemented'')"
    using call_without_metadata_skipped [of method_node ex_graph init_cstate "[]"] m by blast
  then have "compile_nodes ex_graph [method_node] init_cstate = Inl (RuntimeError ''not yet implemented'')"
    by simp
  with s h show ?thesis by (simp add: method_node_def)
qed

subsection \<open>Keyword arguments\<close>

text \<open>
  Claim C7, as stated, fails: a function call with tensor metadata and no keyword
  argument can raise as well. The call of \<open>operator.add\<close> below has no keyword
  argument; its lowering reaches \<open>get_nnc_type\<close> with a 32-bit integer dtype, which
  raises \<open>RuntimeError("nyi")\<close>.
\<close>

theorem kwargs_only_error_counterexample:
  "node_op int32_add_node = ''call_function'' \<and> node_meta int32_add_node \<noteq> None
   \<and> node_kwargs int32_add_node = []
   \<and> compile_node [] init_cstate int32_add_node = Inl (RuntimeError ''nyi'')"
  by (simp add: int32_add_node_def compile_node_def lookup_env_def lower_function_def
      lowering_functions_def func_to_aten_def get_nnc_type_def operator_add_def
      aten_ones_like_def aten_dot_def aten_mv_def operator_getitem_def process_shape_def
      expr_int_def)

text \<open>
  Claim C7, amended. For a \<open>call_function\<close> node with tensor metadata, the loop body
  raises \<open>RuntimeError("kwargs nyi")\<close> if and only if the node has keyword arguments.
  It does so whatever the environment and the arguments are (nothing of the node is
  looked up or lowered before), and the error ends the compilation: the loop and
  \<open>nnc_compile\<close> return it. Without keyword arguments the node is lowered: the result
  of \<open>lower_function\<close> is bound and its statements appended, or the error of the
  lookup or of the lowering is raised.
\<close>

theorem kwargs_rejected:
  assumes "node_op nd = ''call_function''" and "node_meta nd \<noteq> None"
  shows "(compile_node nodes st nd = Inl (RuntimeError ''kwargs nyi'') \<longleftrightarrow> node_kwargs nd \<noteq> [])
    \<and> (node_kwargs nd \<noteq> [] \<longrightarrow>
         compile_nodes nodes (nd # rest) st = Inl (RuntimeError ''kwargs nyi'')
         \<and> (gm_graph m = pre @ nd # rest \<and> compile_nodes (gm_graph m) pre init_cstate = Inr st'
              \<longrightarrow> nnc_compile m next = Inl (RuntimeError ''kwargs nyi'')))
    \<and> (node_kwargs nd = [] \<longrightarrow>
         compile_node nodes st nd =
           (case lookup_env (env st) (node_args nd) of
              Inl e \<Rightarrow> Inl e
            | Inr nnc_args \<Rightarrow>
                (case lower_function nodes nd (node_target nd) nnc_args (node_args nd) of
                   Inl e \<Rightarrow> Inl e
                 | Inr (b, ss) \<Rightarrow>
                     Inr (st\<lparr>compute_stmts := compute_stmts st @ ss,
                             env := (env st)(node_name nd \<mapsto> b)\<rparr>))))"
proof -
  have raised: "compile_node nodes' s nd = Inl (RuntimeError ''kwargs nyi'')"
    if "node_kwargs nd \<noteq> []" for nodes' s
    using assms that by (simp add: compile_node_def)
  have lowered: "compile_node nodes st nd =
           (case lookup_env (env st) (node_args nd) of
              Inl e \<Rightarrow> Inl e
            | Inr nnc_args \<Rightarrow>
                (case lower_function nodes nd (node_target nd) nnc_args (node_args nd) of
                   Inl e \<Rightarrow> Inl e
                 | Inr (b, ss) \<Rightarrow>
                     Inr (st\<lparr>compute_stmts := compute_stmts st @ ss,
                             env := (env st)(node_name nd \<mapsto> b)\<rparr>)))"
    if "node_kwargs nd = []"
    using assms that by (simp add: compile_node_def)
  have other: "compile_node nodes st nd \<noteq> Inl (RuntimeError ''kwargs nyi'')"
    if "node_kwargs nd = []"
  proof
    assume e: "compile_node nodes st nd = Inl (RuntimeError ''kwargs nyi'')"
    then show False
      using lowered [OF that]
      by (auto split: sum.splits prod.splits
          dest!: lookup_env_error lower_function_error simp: lowering_errors_def)
  qed
  have abort: "nnc_compile m next = Inl (RuntimeError ''kwargs nyi'')"
    if "node_kwargs nd \<noteq> []" "gm_graph m = pre @ nd # rest"
      "compile_nodes (gm_graph m) pre init_cstate = Inr st'"
    using compile_aborts [OF that(2) that(3) raised [OF that(1)]] .
  from raised [of nodes st] lowered other abort show ?thesis by (auto simp: raised)
qed

theorem kwargs_rejected_witness:
  "node_op kwargs_node = ''call_function'' \<and> node_meta kwargs_node \<noteq> None
   \<and> node_kwargs kwargs_node \<noteq> []
   \<and> compile_node ex_graph init_cstate kwargs_node = Inl (RuntimeError ''kwargs nyi'')
   \<and> nnc_compile \<lparr>gm_graph = [kwargs_node, ex_output], gm_attrs = ModuleObj []\<rparr> 0 =
       Inl (RuntimeError ''kwargs nyi'')"
proof -
  have h: "node_op kwargs_node = ''call_function''" "node_meta kwargs_node \<noteq> None"
    and k: "node_kwargs kwargs_node \<noteq> []"
    by (simp_all add: kwargs_node_def ex_mul_def float_meta_def)
  have g: "gm_graph \<lparr>gm_graph = [kwargs_node, ex_output], gm_attrs = ModuleObj []\<rparr> =
      [] @ kwargs_node # [ex_output]
    \<and> compile_nodes (gm_graph \<lparr>gm_graph = [kwargs_node, ex_output], gm_attrs = ModuleObj []\<rparr>) []
        init_cstate = Inr init_cstate"
    by simp
  from kwargs_rejected [OF h, of ex_graph init_cstate "[ex_output]"
      "\<lparr>gm_graph = [kwargs_node, ex_output], gm_attrs = ModuleObj []\<rparr>" "[]" init_cstate 0] k g h
  show ?thesis by blast
qed

subsection \<open>Zero-rank shapes\<close>

text \<open>
  Claim C5. Before loop-nest generation a zero-rank shape is to be normalized to
  \<open>[1]\<close> for every graph node. \<open>process_shape\<close> does map \<open>[]\<close> to \<open>[1]\<close> and every
  non-empty shape to itself, and the driver applies it in the \<open>get_attr\<close> branch and
  to the operand and output shapes given to the lowering rules; the placeholder
  branch leaves it out. On a zero-rank input the driver binds the placeholder to a
  buffer with no dimension, while the captured-state node with the same metadata gets
  the dimension list \<open>[1]\<close> and the same placeholder, as an operand of a call, is
  announced to the lowering rule with shape \<open>[1]\<close>.
\<close>

theorem placeholder_shape_not_promoted:
  "process_shape [] = [1] \<and> process_shape [2, 3] = [2, 3]
   \<and> node_op scalar_placeholder = ''placeholder'' \<and> node_meta scalar_placeholder = float_meta []
   \<and> compile_node [scalar_placeholder] init_cstate scalar_placeholder =
       Inr (init_cstate\<lparr>env := [''s'' \<mapsto> PlaceholderData (Placeholder ''s'' Float [])],
                        inputs := [Placeholder ''s'' Float []]\<rparr>)
   \<and> node_op ex_w = ''get_attr'' \<and> node_meta ex_w = float_meta []
   \<and> compile_node [ex_w] init_cstate ex_w =
       Inr (init_cstate\<lparr>module_attrs := [ex_w],
              env := [''w'' \<mapsto> PlaceholderData (Placeholder ''w'' Float [IntImm 1])]\<rparr>)
   \<and> operand_shape [scalar_placeholder] (Ref (NodeRef 0 ''s'')) = Inr (Some ([1], TorchFloat))"
proof -
  have 1: "compile_node [scalar_placeholder] init_cstate scalar_placeholder =
       Inr (init_cstate\<lparr>env := [''s'' \<mapsto> PlaceholderData (Placeholder ''s'' Float [])],
                        inputs := [Placeholder ''s'' Float []]\<rparr>)"
    by (simp add: scalar_placeholder_def float_meta_def compile_node_def get_te_type_def
        get_nnc_type_def init_cstate_def Let_def)
  have 2: "compile_node [ex_w] init_cstate ex_w =
       Inr (init_cstate\<lparr>module_attrs := [ex_w],
              env := [''w'' \<mapsto> PlaceholderData (Placeholder ''w'' Float [IntImm 1])]\<rparr>)"
    by (simp add: compile_node_def get_te_type_def get_nnc_type_def init_cstate_def Let_def
        process_shape_def expr_int_def ex_w_def float_meta_def)
  have 3: "operand_shape [scalar_placeholder] (Ref (NodeRef 0 ''s'')) = Inr (Some ([1], TorchFloat))"
    by (simp add: operand_shape_def deref_def ref_of_def scalar_placeholder_def float_meta_def
        process_shape_def)
  have 4: "process_shape [] = [1] \<and> process_shape [2, 3] = [2, 3]"
    by (simp add: process_shape_def)
  have 5: "node_op scalar_placeholder = ''placeholder'' \<and> node_meta scalar_placeholder = float_meta []
      \<and> node_op ex_w = ''get_attr'' \<and> node_meta ex_w = float_meta []"
    by (simp add: scalar_placeholder_def ex_w_def)
  from 1 2 3 4 5 show ?thesis by simp
qed

subsection \<open>The example module compiles\<close>

lemma ex_compiles: "nnc_compile ex_module 100 = Inr ex_compiled"
  by code_simp

lemma ex_names_distinct: "distinct (map node_name (gm_graph ex_module))"
  by code_simp

subsection \<open>What the loop leaves in its variables\<close>

lemma compile_node_inputs:
  assumes "compile_node nodes st nd = Inr st'"
  shows "map Some (inputs st') =
         map Some (inputs st) @ (if is_placeholder nd then [input_placeholder nd] else [])"
  using assms
  by (auto simp: compile_node_def is_placeholder_def input_placeholder_def get_te_type_def Let_def
      split: if_splits option.splits sum.splits prod.splits list.splits)

lemma compile_node_module_attrs:
  assumes "compile_node nodes st nd = Inr st'"
  shows "module_attrs st' = module_attrs st @ (if is_get_attr nd then [nd] else [])"
  using assms
  by (auto simp: compile_node_def is_get_attr_def Let_def
      split: if_splits option.splits sum.splits prod.splits list.splits)

lemma compile_node_env_other:
  assumes "compile_node nodes st nd = Inr st'" and "k \<noteq> node_name nd"
  shows "env st' k = env st k"
  using assms
  by (auto simp: compile_node_def Let_def
      split: if_splits option.splits sum.splits prod.splits list.splits)

lemma compile_node_env_attr:
  assumes "compile_node nodes st nd = Inr st'" and "is_get_attr nd"
  shows "\<exists>p. attr_placeholder nd = Some p \<and> env st' (node_name nd) = Some (PlaceholderData p)"
  using assms
  by (auto simp: compile_node_def is_get_attr_def attr_placeholder_def get_te_type_def Let_def
      split: if_splits option.splits sum.splits)

lemma compile_nodes_inputs:
  "compile_nodes nodes ns st = Inr st' \<Longrightarrow>
     map Some (inputs st') = map Some (inputs st) @ map input_placeholder (filter is_placeholder ns)"
proof (induction ns arbitrary: st)
  case Nil
  then show ?case by simp
next
  case (Cons nd ns)
  then obtain st1 where 1: "compile_node nodes st nd = Inr st1"
    and 2: "compile_nodes nodes ns st1 = Inr st'"
    by (auto split: sum.splits)
  show ?case
    using Cons.IH [OF 2] compile_node_inputs [OF 1] by simp
qed

lemma compile_nodes_module_attrs:
  "compile_nodes nodes ns st = Inr st' \<Longrightarrow>
     module_attrs st' = module_attrs st @ filter is_get_attr ns"
proof (induction ns arbitrary: st)
  case Nil
  then show ?case by simp
next
  case (Cons nd ns)
  then obtain st1 where 1: "compile_node nodes st nd = Inr st1"
    and 2: "compile_nodes nodes ns st1 = Inr st'"
    by (auto split: sum.splits)
  show ?case
    using Cons.IH [OF 2] compile_node_module_attrs [OF 1] by simp
qed

lemma compile_nodes_env_other:
  "compile_nodes nodes ns st = Inr st' \<Longrightarrow> k \<notin> node_name ` set ns \<Longrightarrow> env st' k = env st k"
proof (induction ns arbitrary: st)
  case Nil
  then show ?case by simp
next
  case (Cons nd ns)
  then obtain st1 where 1: "compile_node nodes st nd = Inr st1"
    and 2: "compile_nodes nodes ns st1 = Inr st'"
    by (auto split: sum.splits)
  from Cons.prems(2) have "k \<noteq> node_name nd" "k \<notin> node_name ` set ns" by auto
  then show ?case
    using Cons.IH [OF 2] compile_node_env_other [OF 1] by simp
qed

lemma compile_nodes_env_attrs:
  "compile_nodes nodes ns st = Inr st' \<Longrightarrow> distinct (map node_name ns) \<Longrightarrow>
     i \<in> set (filter is_get_attr ns) \<Longrightarrow>
     \<exists>p. attr_placeholder i = Some p \<and> env st' (node_name i) = Some (PlaceholderData p)"
proof (induction ns arbitrary: st)
  case Nil
  then show ?case by simp
next
  case (Cons nd ns)
  then obtain st1 where 1: "compile_node nodes st nd = Inr st1"
    and 2: "compile_nodes nodes ns st1 = Inr st'"
    by (auto split: sum.splits)
  from Cons.prems(2) have d: "node_name nd \<notin> node_name ` set ns" "distinct (map node_name ns)"
    by auto
  show ?case
  proof (cases "i = nd \<and> is_get_attr nd")
    case True
    then obtain p where "attr_placeholder i = Some p" "env st1 (node_name i) = Some (PlaceholderData p)"
      using compile_node_env_attr [OF 1] by blast
    moreover have "env st' (node_name i) = env st1 (node_name i)"
      using compile_nodes_env_other [OF 2] d(1) True by simp
    ultimately show ?thesis by simp
  next
    case False
    with Cons.prems(3) have "i \<in> set (filter is_get_attr ns)" by (auto split: if_splits)
    then show ?thesis using Cons.IH [OF 2 d(2)] by simp
  qed
qed

lemma attr_handles_eq:
  assumes "\<forall>i \<in> set is. \<exists>p. attr_placeholder i = Some p \<and> e (node_name i) = Some (PlaceholderData p)"
  shows "\<exists>ps. map attr_placeholder is = map Some ps \<and> attr_handles e is = Inr (map PlaceholderData ps)"
  using assms
proof (induction "is")
  case Nil
  then show ?case by simp
next
  case (Cons i "is")
  then obtain ps where ps: "map attr_placeholder is = map Some ps"
    "attr_handles e is = Inr (map PlaceholderData ps)"
    by auto
  from Cons.prems obtain p where p: "attr_placeholder i = Some p"
    "e (node_name i) = Some (PlaceholderData p)"
    by auto
  have "map attr_placeholder (i # is) = map Some (p # ps)
      \<and> attr_handles e (i # is) = Inr (map PlaceholderData (p # ps))"
    using ps p by simp
  then show ?case by blast
qed

lemma module_tensors_eq:
  "module_tensors m is = Inr ts \<Longrightarrow> map (module_tensor m) is = map Inr ts"
  by (induction "is" arbitrary: ts) (auto split: sum.splits)

lemma map_aggregate_list_length:
  "map_aggregate_list as fn = Inr ys \<Longrightarrow> length ys = length as"
  by (induction as arbitrary: ys) (auto split: sum.splits)

lemma output_metas_length: "output_metas nodes as = Inr ms \<Longrightarrow> length ms = length as"
  by (induction as arbitrary: ms) (auto split: sum.splits)

lemma handles_of_length: "handles_of xs = Inr hs \<Longrightarrow> length hs = length xs"
  by (induction xs arbitrary: hs rule: handles_of.induct) (auto split: sum.splits)

lemma compile_node_outs:
  assumes "compile_node nodes st nd = Inr st'" and "outs st' = Some (hs, ms)"
    and "\<forall>hs ms. outs st = Some (hs, ms) \<longrightarrow> length hs = length ms"
  shows "length hs = length ms"
proof (cases "node_op nd = ''output''")
  case True
  with assms(1,2) show ?thesis
    by (auto simp: compile_node_def lookup_env_def Let_def split: list.splits sum.splits
        dest!: map_aggregate_list_length output_metas_length handles_of_length)
next
  case False
  with assms(1) have "outs st' = outs st"
    by (auto simp: compile_node_def Let_def
        split: if_splits option.splits sum.splits prod.splits)
  with assms(2,3) show ?thesis by simp
qed

lemma compile_nodes_outs:
  "compile_nodes nodes ns st = Inr st' \<Longrightarrow> outs st' = Some (hs, ms) \<Longrightarrow>
     \<forall>hs ms. outs st = Some (hs, ms) \<longrightarrow> length hs = length ms \<Longrightarrow> length hs = length ms"
proof (induction ns arbitrary: st)
  case Nil
  then show ?case by simp
next
  case (Cons nd ns)
  then obtain st1 where 1: "compile_node nodes st nd = Inr st1"
    and 2: "compile_nodes nodes ns st1 = Inr st'"
    by (auto split: sum.splits)
  have "\<forall>hs ms. outs st1 = Some (hs, ms) \<longrightarrow> length hs = length ms"
    using compile_node_outs [OF 1 _ Cons.prems(3)] by blast
  from Cons.IH [OF 2 Cons.prems(2) this] show ?case .
qed

text \<open>The variables of a compilation that succeeds, and what it returns.\<close>

lemma nnc_compile_variables:
  assumes "nnc_compile m next = Inr c" and "distinct (map node_name (gm_graph m))"
  shows "\<exists>st stmt attr_ps out_hs metas.
      compile_nodes (gm_graph m) (gm_graph m) init_cstate = Inr st
    \<and> outs st = Some (out_hs, metas) \<and> length metas = length out_hs
    \<and> module_attrs st = filter is_get_attr (gm_graph m)
    \<and> map attr_placeholder (module_attrs st) = map Some attr_ps
    \<and> attr_handles (env st) (module_attrs st) = Inr (map PlaceholderData attr_ps)
    \<and> map input_placeholder (filter is_placeholder (gm_graph m)) = map Some (inputs st)
    \<and> cg c = ConstructCodegen ''llvm'' stmt
         (buffer_args (map PlaceholderData attr_ps) (inputs st) out_hs)
    \<and> map (module_tensor m) (module_attrs st) = map Inr (module_stuff c)
    \<and> alloc_results c = alloc_empty next metas"
proof -
  from assms(1) obtain st where st: "compile_nodes (gm_graph m) (gm_graph m) init_cstate = Inr st"
    and fin: "finalize m next st = Inr c"
    by (auto simp: nnc_compile_def split: sum.splits)
  from fin obtain out_hs metas where o: "outs st = Some (out_hs, metas)"
    by (auto simp: finalize_def split: option.splits)
  have len: "length metas = length out_hs"
    using compile_nodes_outs [OF st o] by (simp add: init_cstate_def)
  have ma: "module_attrs st = filter is_get_attr (gm_graph m)"
    using compile_nodes_module_attrs [OF st] by (simp add: init_cstate_def)
  have inp: "map input_placeholder (filter is_placeholder (gm_graph m)) = map Some (inputs st)"
    using compile_nodes_inputs [OF st] by (simp add: init_cstate_def)
  have "\<forall>i \<in> set (module_attrs st).
      \<exists>p. attr_placeholder i = Some p \<and> env st (node_name i) = Some (PlaceholderData p)"
    unfolding ma using compile_nodes_env_attrs [OF st assms(2)] by (intro ballI)
  from attr_handles_eq [OF this] obtain attr_ps where
    ps: "map attr_placeholder (module_attrs st) = map Some attr_ps"
    "attr_handles (env st) (module_attrs st) = Inr (map PlaceholderData attr_ps)"
    by blast
  from fin o ps(2) obtain ms where ms: "module_tensors m (module_attrs st) = Inr ms"
    and c: "c = \<lparr>cg = ConstructCodegen ''llvm''
          (Simplify (RootStmt (PrepareForCodegen (LoopNestSimplify
             (LoopNest (Block (compute_stmts st)) out_hs)))))
          (buffer_args (map PlaceholderData attr_ps) (inputs st) out_hs),
        alloc_results = alloc_empty next metas, module_stuff = ms\<rparr>"
    by (auto simp: finalize_def Let_def split: sum.splits)
  have mt: "map (module_tensor m) (module_attrs st) = map Inr (module_stuff c)"
    using module_tensors_eq [OF ms] c by simp
  from st o len ma ps inp c mt show ?thesis by auto
qed

subsection \<open>The order of the buffer arguments\<close>

text \<open>
  Claim C2. For every model that compiles (node names are unique, as fx keeps them),
  the buffer arguments given to \<open>construct_codegen\<close> are, in this order: the handles
  of the captured-state (\<open>get_attr\<close>) nodes in graph order, each the data of the
  placeholder created for the node; the \<open>te.Placeholder\<close>s of the input placeholders
  in graph order; the output handles recorded at the output node. Every call of the
  returned callable passes to the kernel the captured-state tensors (one per
  \<open>get_attr\<close> node, in the same order), then the caller's positional inputs, then the
  output buffers (the pre-allocated ones, one per output handle, or the caller's).
\<close>

theorem buffer_argument_order:
  assumes "nnc_compile m next = Inr c" and "distinct (map node_name (gm_graph m))"
  shows "\<exists>st stmt attr_ps out_hs metas.
      compile_nodes (gm_graph m) (gm_graph m) init_cstate = Inr st
    \<and> outs st = Some (out_hs, metas)
    \<and> map attr_placeholder (filter is_get_attr (gm_graph m)) = map Some attr_ps
    \<and> map input_placeholder (filter is_placeholder (gm_graph m)) = map Some (inputs st)
    \<and> cg c = ConstructCodegen ''llvm'' stmt
         (map BufferArg (map (OfHandle \<circ> PlaceholderData) attr_ps
                         @ map OfPlaceholder (inputs st) @ map OfHandle out_hs))
    \<and> map (module_tensor m) (filter is_get_attr (gm_graph m)) = map Inr (module_stuff c)
    \<and> length (alloc_results c) = length out_hs
    \<and> (\<forall>call inps out_tensors s.
          snd (f call c inps out_tensors s) =
          call (cg c) (module_stuff c @ inps @
                       (case out_tensors of None \<Rightarrow> alloc_results c | Some ts \<Rightarrow> ts)) s)"
proof -
  from nnc_compile_variables [OF assms] obtain st stmt attr_ps out_hs metas where v:
    "compile_nodes (gm_graph m) (gm_graph m) init_cstate = Inr st"
    "outs st = Some (out_hs, metas)" "length metas = length out_hs"
    "module_attrs st = filter is_get_attr (gm_graph m)"
    "map attr_placeholder (module_attrs st) = map Some attr_ps"
    "map input_placeholder (filter is_placeholder (gm_graph m)) = map Some (inputs st)"
    "cg c = ConstructCodegen ''llvm'' stmt (buffer_args (map PlaceholderData attr_ps) (inputs st) out_hs)"
    "map (module_tensor m) (module_attrs st) = map Inr (module_stuff c)"
    "alloc_results c = alloc_empty next metas"
    by blast
  have al: "length (alloc_empty n ms) = length ms" for n and ms :: "(int list \<times> torch_dtype) list"
    by (induction n ms rule: alloc_empty.induct) auto
  have call: "snd (f call c inps out_tensors s) =
          call (cg c) (module_stuff c @ inps @
                       (case out_tensors of None \<Rightarrow> alloc_results c | Some ts \<Rightarrow> ts)) s"
    for call :: "codegen \<Rightarrow> torch_tensor list \<Rightarrow> 's \<Rightarrow> 's" and inps out_tensors s
    by (simp add: f_def Let_def split: option.splits)
  have "cg c = ConstructCodegen ''llvm'' stmt
         (map BufferArg (map (OfHandle \<circ> PlaceholderData) attr_ps
                         @ map OfPlaceholder (inputs st) @ map OfHandle out_hs))"
    using v(7) by (simp add: buffer_args_def)
  moreover have "length (alloc_results c) = length out_hs"
    using v(3,9) al by simp
  ultimately show ?thesis
    using v(1,2,4,5,6,8) call by auto
qed

theorem buffer_argument_order_witness:
  "nnc_compile ex_module 100 = Inr ex_compiled
   \<and> distinct (map node_name (gm_graph ex_module))
   \<and> (\<exists>stmt. cg ex_compiled = ConstructCodegen ''llvm'' stmt
         [BufferArg (OfHandle (PlaceholderData (Placeholder ''w'' Float [IntImm 1]))),
          BufferArg (OfPlaceholder (Placeholder ''a'' Float [IntImm 2])),
          BufferArg (OfPlaceholder (Placeholder ''b'' Float [IntImm 2])),
          BufferArg (OfHandle (TensorBuf ex_product))])
   \<and> snd (f copy_kernel ex_compiled [tensor_a, tensor_b] None (\<lambda>a. 0)) =
       copy_kernel (cg ex_compiled)
         [TorchTensor 0 [] TorchFloat, tensor_a, tensor_b, TorchTensor 100 [2] TorchFloat] (\<lambda>a. 0)
   \<and> snd (f copy_kernel ex_compiled [tensor_a, tensor_b] (Some [tensor_out]) (\<lambda>a. 0)) =
       copy_kernel (cg ex_compiled)
         [TorchTensor 0 [] TorchFloat, tensor_a, tensor_b, tensor_out] (\<lambda>a. 0)"
proof -
  from buffer_argument_order [OF ex_compiles ex_names_distinct]
  obtain st stmt attr_ps out_hs metas where
    st: "compile_nodes (gm_graph ex_module) (gm_graph ex_module) init_cstate = Inr st"
    and o: "outs st = Some (out_hs, metas)"
    and a: "map attr_placeholder (filter is_get_attr (gm_graph ex_module)) = map Some attr_ps"
    and i: "map input_placeholder (filter is_placeholder (gm_graph ex_module)) = map Some (inputs st)"
    and c: "cg ex_compiled = ConstructCodegen ''llvm'' stmt
         (map BufferArg (map (OfHandle \<circ> PlaceholderData) attr_ps
                         @ map OfPlaceholder (inputs st) @ map OfHandle out_hs))"
    and call: "\<forall>(call :: codegen \<Rightarrow> torch_tensor list \<Rightarrow> (nat \<Rightarrow> int) \<Rightarrow> (nat \<Rightarrow> int))
          inps out_tensors s.
          snd (f call ex_compiled inps out_tensors s) =
          call (cg ex_compiled) (module_stuff ex_compiled @ inps @
                       (case out_tensors of None \<Rightarrow> alloc_results ex_compiled | Some ts \<Rightarrow> ts)) s"
    by blast
  have "map attr_placeholder (filter is_get_attr (gm_graph ex_module)) =
      [Some (Placeholder ''w'' Float [IntImm 1])]"
    by code_simp
  with a have attr_ps: "attr_ps = [Placeholder ''w'' Float [IntImm 1]]"
    by (cases attr_ps) auto
  have "map input_placeholder (filter is_placeholder (gm_graph ex_module)) =
      map Some [Placeholder ''a'' Float [IntImm 2], Placeholder ''b'' Float [IntImm 2]]"
    by code_simp
  with i have inps: "inputs st = [Placeholder ''a'' Float [IntImm 2], Placeholder ''b'' Float [IntImm 2]]"
    by (metis (no_types) inj_Some inj_map_eq_map)
  have "map_sum id outs (compile_nodes (gm_graph ex_module) (gm_graph ex_module) init_cstate) =
      Inr (Some ([TensorBuf ex_product], [([2], TorchFloat)]))"
    by code_simp
  with st o have out_hs: "out_hs = [TensorBuf ex_product]" by simp
  have 1: "\<exists>stmt. cg ex_compiled = ConstructCodegen ''llvm'' stmt
         [BufferArg (OfHandle (PlaceholderData (Placeholder ''w'' Float [IntImm 1]))),
          BufferArg (OfPlaceholder (Placeholder ''a'' Float [IntImm 2])),
          BufferArg (OfPlaceholder (Placeholder ''b'' Float [IntImm 2])),
          BufferArg (OfHandle (TensorBuf ex_product))]"
    using c attr_ps inps out_hs by simp
  have 2: "snd (f copy_kernel ex_compiled [tensor_a, tensor_b] None (\<lambda>a. 0)) =
       copy_kernel (cg ex_compiled)
         [TorchTensor 0 [] TorchFloat, tensor_a, tensor_b, TorchTensor 100 [2] TorchFloat] (\<lambda>a. 0)"
    using call [rule_format, of copy_kernel "[tensor_a, tensor_b]" None "\<lambda>a. 0"]
    by (simp add: ex_compiled_def)
  have 3: "snd (f copy_kernel ex_compiled [tensor_a, tensor_b] (Some [tensor_out]) (\<lambda>a. 0)) =
       copy_kernel (cg ex_compiled)
         [TorchTensor 0 [] TorchFloat, tensor_a, tensor_b, tensor_out] (\<lambda>a. 0)"
    using call [rule_format, of copy_kernel "[tensor_a, tensor_b]" "Some [tensor_out]" "\<lambda>a. 0"]
    by (simp add: ex_compiled_def)
  from ex_compiles ex_names_distinct 1 2 3 show ?thesis by blast
qed

subsection \<open>The returned callable\<close>




lemma drop_to_last:
  assumes "bufs \<noteq> []"
  shows "drop (length bufs - 1) bufs = [last bufs]"
proof -
  have "drop (length (butlast bufs)) (butlast bufs @ [last bufs]) = [last bufs]" by simp
  with assms show ?thesis by simp
qed

lemma copy_kernel_writes_last: "writes_last 1 (copy_kernel c)"
  unfolding writes_last_def copy_kernel_def
proof (intro allI impI)
  fix bufs :: "torch_tensor list" and s :: "nat \<Rightarrow> int" and a
  assume a: "a \<notin> addr ` set (drop (length bufs - 1) bufs)"
  show "(if bufs = [] then s else s(addr (last bufs) := s (addr (hd bufs)))) a = s a"
  proof (cases "bufs = []")
    case True
    then show ?thesis by simp
  next
    case False
    with a drop_to_last [OF False] have "a \<noteq> addr (last bufs)" by simp
    with False show ?thesis by simp
  qed
qed



text \<open>
  Claim C10, as stated, fails: the buffers a caller supplies need not be the caller's
  own. Without the list the callable returns the default buffer itself; handed back
  as the output list of a second call, it is overwritten by that call.
\<close>

theorem default_buffer_supplied_counterexample:
  "alloc_results ex_compiled = [TorchTensor 100 [2] TorchFloat]
   \<and> fst (f copy_kernel ex_compiled [tensor_a, tensor_b] None int) =
       RetTensor (TorchTensor 100 [2] TorchFloat)
   \<and> writes_last 1 (copy_kernel (cg ex_compiled))
   \<and> fst (f copy_kernel ex_compiled [tensor_a, tensor_b] (Some [TorchTensor 100 [2] TorchFloat]) int) =
       RetNone
   \<and> snd (f copy_kernel ex_compiled [tensor_a, tensor_b] (Some [TorchTensor 100 [2] TorchFloat]) int)
         100 = 0
   \<and> int 100 \<noteq> 0"
  using copy_kernel_writes_last [of "cg ex_compiled"]
  by (simp add: f_def ex_compiled_def copy_kernel_def Let_def)

text \<open>
  Claim C10, amended. When the callable is given a list of output buffers, the kernel
  is called with these buffers in the output positions and the callable returns
  \<open>None\<close>. For a kernel that respects the calling convention (it writes to the
  storage of its output buffers, which are as many as the buffers supplied), nothing
  outside the supplied buffers changes; the default output buffers keep their contents
  provided the supplied buffers share no storage with them.
\<close>

theorem caller_outputs_only:
  assumes "writes_last (length ts) (kern (cg c))"
  shows "fst (f kern c inps (Some ts) s) = RetNone
    \<and> snd (f kern c inps (Some ts) s) = kern (cg c) (module_stuff c @ inps @ ts) s
    \<and> (\<forall>a. a \<notin> addr ` set ts \<longrightarrow> snd (f kern c inps (Some ts) s) a = s a)
    \<and> (addr ` set ts \<inter> addr ` set (alloc_results c) = {} \<longrightarrow>
         (\<forall>t \<in> set (alloc_results c). snd (f kern c inps (Some ts) s) (addr t) = s (addr t)))"
proof -
  have r: "fst (f kern c inps (Some ts) s) = RetNone"
    "snd (f kern c inps (Some ts) s) = kern (cg c) (module_stuff c @ inps @ ts) s"
    by (simp_all add: f_def Let_def)
  have d: "drop (length (module_stuff c @ inps @ ts) - length ts) (module_stuff c @ inps @ ts) = ts"
    by simp
  from assms(1) have "\<forall>a. a \<notin> addr ` set (drop (length (module_stuff c @ inps @ ts) - length ts)
        (module_stuff c @ inps @ ts)) \<longrightarrow> kern (cg c) (module_stuff c @ inps @ ts) s a = s a"
    unfolding writes_last_def by blast
  then have frame: "\<forall>a. a \<notin> addr ` set ts \<longrightarrow> snd (f kern c inps (Some ts) s) a = s a"
    unfolding d r .
  have "\<forall>t \<in> set (alloc_results c). snd (f kern c inps (Some ts) s) (addr t) = s (addr t)"
    if "addr ` set ts \<inter> addr ` set (alloc_results c) = {}"
  proof
    fix t assume "t \<in> set (alloc_results c)"
    with that have "addr t \<notin> addr ` set ts" by blast
    with frame show "snd (f kern c inps (Some ts) s) (addr t) = s (addr t)" by blast
  qed
  with frame r show ?thesis by blast
qed

theorem caller_outputs_only_witness:
  "writes_last (length [tensor_out]) (copy_kernel (cg ex_compiled))
   \<and> addr ` set [tensor_out] \<inter> addr ` set (alloc_results ex_compiled) = {}
   \<and> f copy_kernel ex_compiled [tensor_a, tensor_b] (Some [tensor_out]) int = (RetNone, int(30 := 0))
   \<and> snd (f copy_kernel ex_compiled [tensor_a, tensor_b] (Some [tensor_out]) int) 100 = int 100"
proof -
  have wl: "writes_last (length [tensor_out]) (copy_kernel (cg ex_compiled))"
    using copy_kernel_writes_last [of "cg ex_compiled"] by simp
  have dj: "addr ` set [tensor_out] \<inter> addr ` set (alloc_results ex_compiled) = {}"
    by (simp add: tensor_out_def ex_compiled_def)
  have ms: "module_stuff ex_compiled = [TorchTensor 0 [] TorchFloat]"
    by (simp add: ex_compiled_def)
  note t = caller_outputs_only [where kern = copy_kernel and c = ex_compiled
      and ts = "[tensor_out]" and inps = "[tensor_a, tensor_b]" and s = int, OF wl]
  from t have 1: "fst (f copy_kernel ex_compiled [tensor_a, tensor_b] (Some [tensor_out]) int) = RetNone"
    by blast
  from t have c: "snd (f copy_kernel ex_compiled [tensor_a, tensor_b] (Some [tensor_out]) int) =
      copy_kernel (cg ex_compiled) (module_stuff ex_compiled @ [tensor_a, tensor_b] @ [tensor_out]) int"
    by blast
  have 2: "snd (f copy_kernel ex_compiled [tensor_a, tensor_b] (Some [tensor_out]) int) = int(30 := 0)"
    unfolding c ms by (simp add: copy_kernel_def tensor_out_def)
  from t dj have "\<forall>t \<in> set (alloc_results ex_compiled).
      snd (f copy_kernel ex_compiled [tensor_a, tensor_b] (Some [tensor_out]) int) (addr t) = int (addr t)"
    by blast
  then have 3: "snd (f copy_kernel ex_compiled [tensor_a, tensor_b] (Some [tensor_out]) int) 100 = int 100"
    by (simp add: ex_compiled_def)
  have 4: "f copy_kernel ex_compiled [tensor_a, tensor_b] (Some [tensor_out]) int = (RetNone, int(30 := 0))"
    using 1 2 by (simp add: prod_eq_iff)
  from wl dj 3 4 show ?thesis by blast
qed

subsection \<open>Mapping over the nodes of an argument\<close>

lemma arg_refs_simps [simp]:
  "arg_refs (Leaf l) = set_pyleaf l"
  "arg_refs (Tuple xs) = (\<Union>a \<in> set xs. arg_refs a)"
  "arg_refs (PyList xs) = (\<Union>a \<in> set xs. arg_refs a)"
  "arg_refs (Dict kvs) = (\<Union>kv \<in> set kvs. arg_refs (snd kv))"
  "arg_refs (Slice a b c) = arg_refs a \<union> arg_refs b \<union> arg_refs c"
  by (auto simp: arg_refs_def snds.simps) force+

lemma on_nodes_eq:
  assumes "\<forall>x \<in> set_pyleaf l. fn x = Inr (img x)"
  shows "on_nodes fn l = Inr (map_pyleaf img l)"
  using assms by (cases l) (simp_all add: on_nodes_def)

lemma map_aggregate_on_nodes:
  "(\<forall>x \<in> arg_refs a. fn x = Inr (img x)) \<longrightarrow>
     map_aggregate a (on_nodes fn) = Inr (map_agg (map_pyleaf img) a)"
  "(\<forall>a \<in> set as. \<forall>x \<in> arg_refs a. fn x = Inr (img x)) \<longrightarrow>
     map_aggregate_list as (on_nodes fn) = Inr (map (map_agg (map_pyleaf img)) as)"
  "(\<forall>kv \<in> set kvs. \<forall>x \<in> arg_refs (snd kv). fn x = Inr (img x)) \<longrightarrow>
     map_aggregate_items kvs (on_nodes fn) =
       Inr (map (\<lambda>kv. (fst kv, map_agg (map_pyleaf img) (snd kv))) kvs)"
proof (induction a "on_nodes fn" and as "on_nodes fn" and kvs "on_nodes fn"
    rule: map_aggregate_map_aggregate_list_map_aggregate_items.induct)
  case (1 x)
  show ?case
  proof
    assume "\<forall>r \<in> arg_refs (Leaf x). fn r = Inr (img r)"
    then have "on_nodes fn x = Inr (map_pyleaf img x)" by (simp add: on_nodes_eq)
    then show "map_aggregate (Leaf x) (on_nodes fn) = Inr (map_agg (map_pyleaf img) (Leaf x))"
      by simp
  qed
next
  case (2 xs)
  then show ?case by simp
next
  case (3 xs)
  then show ?case by simp
next
  case (4 kvs)
  then show ?case by (simp add: map_prod_def case_prod_beta)
next
  case (5 a b c)
  then show ?case by simp
next
  case 6
  show ?case by simp
next
  case (7 x xs)
  then show ?case by simp
next
  case 8
  show ?case by simp
next
  case (9 kv kvs)
  then show ?case by simp
qed

lemma map_agg_refs_cong:
  assumes "\<forall>x \<in> arg_refs a. img x = img' x"
  shows "map_agg (map_pyleaf img) a = map_agg (map_pyleaf img') a"
proof (rule agg.map_cong [OF refl])
  fix l assume "l \<in> set_agg a"
  with assms have "\<forall>x \<in> set_pyleaf l. img x = img' x" by (auto simp: arg_refs_def)
  then show "map_pyleaf img l = map_pyleaf img' l" by (auto intro: pyleaf.map_cong)
qed

lemma index_of_nth: "distinct xs \<Longrightarrow> j < length xs \<Longrightarrow> index_of xs (xs ! j) = j"
proof (induction xs arbitrary: j)
  case Nil
  then show ?case by simp
next
  case (Cons y ys)
  show ?case
  proof (cases j)
    case 0
    then show ?thesis by simp
  next
    case (Suc j')
    with Cons.prems have "ys ! j' \<noteq> y" "index_of ys (ys ! j') = j'"
      using Cons.IH [of j'] by auto
    with Suc show ?thesis by simp
  qed
qed

subsection \<open>Truncation\<close>

lemma distinct_refs: "distinct (map node_name model) \<Longrightarrow> distinct (map ref_of model)"
proof -
  assume d: "distinct (map node_name model)"
  have "map node_name model = map ref_name (map ref_of model)"
    by (simp add: ref_of_def)
  with d show ?thesis by (metis distinct_map)
qed

lemma index_of_prefix:
  assumes "distinct (map ref_of (pre @ rest))" and "j < length pre"
  shows "index_of (map ref_of (pre @ rest)) (ref_of (pre ! j)) = j"
proof -
  have "map ref_of (pre @ rest) ! j = ref_of (pre ! j)"
    using assms(2) by (simp add: nth_append)
  moreover have "j < length (map ref_of (pre @ rest))" using assms(2) by simp
  ultimately show ?thesis using index_of_nth [OF assms(1)] by metis
qed

lemma node_copy_rewired:
  assumes "\<forall>x \<in> node_refs nd. copied tenv x = Inr (img x)"
  shows "\<exists>cp. node_copy cn g' new_graph nd (copied tenv) = Inr cp \<and> rewired img nd cp
           \<and> node_graph cp = g'"
proof -
  have a: "map_arg_list (node_args nd) (copied tenv) =
      Inr (map (map_agg (map_pyleaf img)) (node_args nd))"
    unfolding map_arg_list_def
    using assms map_aggregate_on_nodes(2) [of "node_args nd" "copied tenv" img]
    by (auto simp: node_refs_def)
  have k: "map_arg_items (node_kwargs nd) (copied tenv) =
      Inr (map (\<lambda>kv. (fst kv, map_agg (map_pyleaf img) (snd kv))) (node_kwargs nd))"
    unfolding map_arg_items_def
    using assms map_aggregate_on_nodes(3) [of "node_kwargs nd" "copied tenv" img]
    by (auto simp: node_refs_def)
  show ?thesis
    by (simp add: node_copy_def a k create_node_def rewired_def)
qed

lemma rewired_cong:
  assumes "rewired img nd cp" and "\<forall>x \<in> node_refs nd. img x = img' x"
  shows "rewired img' nd cp"
proof -
  have "map_agg (map_pyleaf img) a = map_agg (map_pyleaf img') a" if "a \<in> set (node_args nd)" for a
    using that assms(2) by (intro map_agg_refs_cong) (auto simp: node_refs_def)
  moreover have "map_agg (map_pyleaf img) (snd kv) = map_agg (map_pyleaf img') (snd kv)"
    if "kv \<in> set (node_kwargs nd)" for kv
    using that assms(2) by (intro map_agg_refs_cong) (auto simp: node_refs_def)
  ultimately show ?thesis
    using assms(1) by (simp add: rewired_def)
qed

lemma truncate_loop_spec:
  assumes "model = pre @ rest"
    and "distinct (map node_name model)"
    and "defined_before (map ref_of pre) rest"
    and "length new_graph = length pre"
    and "\<forall>j < length pre. tenv (node_name (pre ! j)) = Some (ref_of (new_graph ! j))"
    and "cnt = int (length pre)" and "cnt < k" and "k \<le> cnt + int (length rest)"
  shows "\<exists>final. truncate_loop cn g' k rest tenv cnt new_graph = Inr final
      \<and> length final = nat k + 1 \<and> take (length pre) final = new_graph
      \<and> (\<forall>i. length pre \<le> i \<and> i < nat k \<longrightarrow>
            rewired (image_in model final) (model ! i) (final ! i) \<and> node_graph (final ! i) = g')
      \<and> final ! nat k = graph_output cn g' (take (nat k) final) (ref_of (final ! (nat k - 1)))"
  using assms
proof (induction rest arbitrary: pre tenv cnt new_graph)
  case Nil
  then show ?case by simp
next
  case (Cons nd rest)
  note model = \<open>model = pre @ nd # rest\<close>
  have dr: "distinct (map ref_of (pre @ nd # rest))"
    using distinct_refs Cons.prems(1,2) by blast
  have refs: "node_refs nd \<subseteq> set (map ref_of pre)"
    and db': "defined_before (map ref_of (pre @ [nd])) rest"
    using Cons.prems(3) by simp_all
  text \<open>The image of a node already copied does not depend on what is copied later.\<close>
  have img: "image_in model G x = ref_of (new_graph ! j)"
    if "j < length pre" "x = ref_of (pre ! j)" "take (length pre) G = new_graph" for G x j
  proof -
    have "index_of (map ref_of model) x = j"
      using index_of_prefix [OF dr that(1)] that(2) model by simp
    moreover have "G ! j = new_graph ! j"
      using that(1,3) by (metis nth_take)
    ultimately show ?thesis by (simp add: image_in_def)
  qed
  have known: "\<exists>j < length pre. x = ref_of (pre ! j)" if "x \<in> node_refs nd" for x
  proof -
    from that refs have "x \<in> set (map ref_of pre)" by blast
    then show ?thesis by (auto simp: in_set_conv_nth)
  qed
  have "\<forall>x \<in> node_refs nd. copied tenv x = Inr (image_in model new_graph x)"
  proof
    fix x assume "x \<in> node_refs nd"
    then obtain j where j: "j < length pre" "x = ref_of (pre ! j)" using known by blast
    have "tenv (ref_name x) = Some (ref_of (new_graph ! j))"
      using Cons.prems(5) j by (simp add: ref_of_def)
    moreover have "image_in model new_graph x = ref_of (new_graph ! j)"
      using img [OF j] Cons.prems(4) by simp
    ultimately show "copied tenv x = Inr (image_in model new_graph x)"
      by (simp add: copied_def)
  qed
  from node_copy_rewired [OF this, of cn g' new_graph]
  obtain cp where cp: "node_copy cn g' new_graph nd (copied tenv) = Inr cp"
    and rw: "rewired (image_in model new_graph) nd cp" and gr: "node_graph cp = g'"
    by blast
  have rw': "rewired (image_in model G) nd cp" if "take (length pre) G = new_graph" for G
  proof (rule rewired_cong [OF rw], rule ballI)
    fix x assume "x \<in> node_refs nd"
    then obtain j where j: "j < length pre" "x = ref_of (pre ! j)" using known by blast
    show "image_in model new_graph x = image_in model G x"
      using img [OF j that] img [OF j, of new_graph] Cons.prems(4) by simp
  qed
  have nth_nd: "model ! length pre = nd" using model by simp
  show ?case
  proof (cases "cnt + 1 = k")
    case True
    let ?G1 = "new_graph @ [cp]"
    let ?final = "?G1 @ [graph_output cn g' ?G1 (ref_of cp)]"
    have k: "nat k = Suc (length pre)" using True Cons.prems(6) by simp
    have run: "truncate_loop cn g' k (nd # rest) tenv cnt new_graph = Inr ?final"
      using True by (simp add: cp Let_def)
    have t: "take (length pre) ?final = new_graph" using Cons.prems(4) by simp
    have "length ?final = nat k + 1" using k Cons.prems(4) by simp
    moreover have "\<forall>i. length pre \<le> i \<and> i < nat k \<longrightarrow>
        rewired (image_in model ?final) (model ! i) (?final ! i) \<and> node_graph (?final ! i) = g'"
    proof (intro allI impI)
      fix i assume "length pre \<le> i \<and> i < nat k"
      with k have i: "i = length pre" by simp
      have "?final ! i = cp" using i Cons.prems(4) by (simp add: nth_append)
      then show "rewired (image_in model ?final) (model ! i) (?final ! i) \<and> node_graph (?final ! i) = g'"
        using rw' [OF t] gr nth_nd i by simp
    qed
    moreover have "?final ! nat k = graph_output cn g' (take (nat k) ?final) (ref_of (?final ! (nat k - 1)))"
      using k Cons.prems(4) by (simp add: nth_append)
    ultimately show ?thesis using run t by blast
  next
    case False
    let ?G1 = "new_graph @ [cp]"
    let ?tenv1 = "tenv(node_name nd \<mapsto> ref_of cp)"
    have run: "truncate_loop cn g' k (nd # rest) tenv cnt new_graph =
        truncate_loop cn g' k rest ?tenv1 (cnt + 1) ?G1"
      using False by (simp add: cp Let_def)
    have te1: "\<forall>j < length (pre @ [nd]). ?tenv1 (node_name ((pre @ [nd]) ! j)) = Some (ref_of (?G1 ! j))"
    proof (intro allI impI)
      fix j assume j: "j < length (pre @ [nd])"
      show "?tenv1 (node_name ((pre @ [nd]) ! j)) = Some (ref_of (?G1 ! j))"
      proof (cases "j < length pre")
        case True
        then have "node_name (pre ! j) \<in> set (map node_name pre)" by simp
        moreover have "node_name nd \<notin> set (map node_name pre)"
          using Cons.prems(1,2) by auto
        ultimately have "node_name (pre ! j) \<noteq> node_name nd" by metis
        then show ?thesis
          using True Cons.prems(4,5) by (simp add: nth_append)
      next
        case False
        with j have "j = length pre" by simp
        then show ?thesis using Cons.prems(4) by (simp add: nth_append)
      qed
    qed
    have "\<exists>final. truncate_loop cn g' k rest ?tenv1 (cnt + 1) ?G1 = Inr final
      \<and> length final = nat k + 1 \<and> take (length (pre @ [nd])) final = ?G1
      \<and> (\<forall>i. length (pre @ [nd]) \<le> i \<and> i < nat k \<longrightarrow>
            rewired (image_in model final) (model ! i) (final ! i) \<and> node_graph (final ! i) = g')
      \<and> final ! nat k = graph_output cn g' (take (nat k) final) (ref_of (final ! (nat k - 1)))"
    proof (rule Cons.IH)
      show "model = (pre @ [nd]) @ rest" using model by simp
      show "distinct (map node_name model)" by (rule Cons.prems(2))
      show "defined_before (map ref_of (pre @ [nd])) rest" by (rule db')
      show "length ?G1 = length (pre @ [nd])" using Cons.prems(4) by simp
      show "\<forall>j < length (pre @ [nd]). ?tenv1 (node_name ((pre @ [nd]) ! j)) = Some (ref_of (?G1 ! j))"
        by (rule te1)
      show "cnt + 1 = int (length (pre @ [nd]))" using Cons.prems(6) by simp
      show "cnt + 1 < k" using False Cons.prems(7) by simp
      show "k \<le> cnt + 1 + int (length rest)" using Cons.prems(8) by simp
    qed
    then obtain final where fin: "truncate_loop cn g' k rest ?tenv1 (cnt + 1) ?G1 = Inr final"
      and l: "length final = nat k + 1" and t1: "take (length (pre @ [nd])) final = ?G1"
      and later: "\<forall>i. length (pre @ [nd]) \<le> i \<and> i < nat k \<longrightarrow>
            rewired (image_in model final) (model ! i) (final ! i) \<and> node_graph (final ! i) = g'"
      and out: "final ! nat k = graph_output cn g' (take (nat k) final) (ref_of (final ! (nat k - 1)))"
      by blast
    have t: "take (length pre) final = new_graph"
    proof -
      have "take (length pre) (take (length (pre @ [nd])) final) = take (length pre) ?G1"
        using t1 by simp
      then show ?thesis using Cons.prems(4) by (simp add: min_def)
    qed
    have at: "final ! length pre = cp"
    proof -
      have "length pre < length (pre @ [nd])" by simp
      then have "take (length (pre @ [nd])) final ! length pre = final ! length pre"
        by (rule nth_take)
      moreover have "(new_graph @ [cp]) ! length pre = cp"
        using Cons.prems(4) by (metis nth_append_length)
      ultimately show ?thesis using t1 by metis
    qed
    have "\<forall>i. length pre \<le> i \<and> i < nat k \<longrightarrow>
        rewired (image_in model final) (model ! i) (final ! i) \<and> node_graph (final ! i) = g'"
    proof (intro allI impI)
      fix i assume i: "length pre \<le> i \<and> i < nat k"
      show "rewired (image_in model final) (model ! i) (final ! i) \<and> node_graph (final ! i) = g'"
      proof (cases "i = length pre")
        case True
        then show ?thesis using rw' [OF t] gr nth_nd at by simp
      next
        case False
        with i have "length (pre @ [nd]) \<le> i \<and> i < nat k" by simp
        then show ?thesis using later by blast
      qed
    qed
    then show ?thesis using run fin l t out by auto
  qed
qed

lemma ex_graph_traced: "traced ex_graph"
  by (simp add: traced_def ex_graph_def ex_a_def ex_b_def ex_w_def ex_mul_def ex_output_def
      node_refs_def ref_of_def)

text \<open>
  Claim C3, as stated, fails on the node count: the new graph holds the \<open>k\<close> copies and
  the output node that \<open>new_graph.output\<close> adds. Truncating the example graph to its
  first 2 nodes gives a graph of 3 nodes.
\<close>

theorem truncate_node_count_counterexample:
  "traced ex_graph \<and> (2::int) \<le> int (length ex_graph)
   \<and> truncate example_create_name 1 ex_graph 2 = Inr ex_truncated2
   \<and> length ex_truncated2 = 3"
proof -
  have "truncate example_create_name 1 ex_graph 2 = Inr ex_truncated2"
    by code_simp
  moreover have "(2::int) \<le> int (length ex_graph)" "length ex_truncated2 = 3"
    by (simp_all add: ex_graph_def ex_truncated2_def)
  ultimately show ?thesis using ex_graph_traced by simp
qed

text \<open>
  Claim C3, amended. For every traced graph with \<open>n\<close> nodes and every \<open>k\<close> with
  \<open>1 \<le> k \<le> n\<close>, \<open>truncate\<close> yields a graph of \<open>k + 1\<close> nodes: the copies of the
  first \<open>k\<close> nodes in definition order, each with the operation, target and metadata of
  its original and with every node among its arguments replaced by that node's copy,
  followed by one output node whose only argument is the copy of the \<open>k\<close>-th node.
  That node is the only output node of the new graph when none of the first \<open>k\<close>
  nodes is an output node.
\<close>

theorem truncate_copies_prefix:
  assumes "traced model" and "1 \<le> k" and "k \<le> int (length model)"
  shows "\<exists>new_graph. truncate create_name g' model k = Inr new_graph
     \<and> length new_graph = nat k + 1
     \<and> (\<forall>i < nat k. rewired (image_in model new_graph) (model ! i) (new_graph ! i)
                     \<and> node_graph (new_graph ! i) = g')
     \<and> node_op (new_graph ! nat k) = ''output''
     \<and> node_args (new_graph ! nat k) = [Leaf (Ref (ref_of (new_graph ! (nat k - 1))))]
     \<and> node_kwargs (new_graph ! nat k) = []
     \<and> (filter is_output (take (nat k) model) = [] \<longrightarrow>
          filter is_output new_graph = [new_graph ! nat k])"
proof -
  have "\<exists>final. truncate_loop create_name g' k model Map.empty 0 [] = Inr final
      \<and> length final = nat k + 1 \<and> take (length ([] :: node list)) final = []
      \<and> (\<forall>i. length ([] :: node list) \<le> i \<and> i < nat k \<longrightarrow>
            rewired (image_in model final) (model ! i) (final ! i) \<and> node_graph (final ! i) = g')
      \<and> final ! nat k =
          graph_output create_name g' (take (nat k) final) (ref_of (final ! (nat k - 1)))"
    using assms by (intro truncate_loop_spec) (simp_all add: traced_def)
  then obtain G where run: "truncate create_name g' model k = Inr G"
    and len: "length G = nat k + 1"
    and copies: "\<forall>i < nat k. rewired (image_in model G) (model ! i) (G ! i) \<and> node_graph (G ! i) = g'"
    and out: "G ! nat k = graph_output create_name g' (take (nat k) G) (ref_of (G ! (nat k - 1)))"
    by (auto simp: truncate_def)
  have o1: "node_op (G ! nat k) = ''output''"
    and o2: "node_args (G ! nat k) = [Leaf (Ref (ref_of (G ! (nat k - 1))))]"
    and o3: "node_kwargs (G ! nat k) = []"
    by (simp_all add: out graph_output_def create_node_def)
  have sole: "filter is_output G = [G ! nat k]" if none: "filter is_output (take (nat k) model) = []"
  proof -
    have split: "G = take (nat k) G @ [G ! nat k]"
      using len by (metis Suc_eq_plus1 lessI take_Suc_conv_app_nth take_all order_refl)
    have "\<not> is_output c" if c: "c \<in> set (take (nat k) G)" for c
    proof -
      from c len obtain i where i: "i < nat k" "c = G ! i"
        by (auto simp: in_set_conv_nth)
      with assms(3) have "model ! i \<in> set (take (nat k) model)"
        by (auto simp: in_set_conv_nth intro!: exI [of _ i])
      with none have "\<not> is_output (model ! i)" by (simp add: filter_empty_conv)
      moreover have "node_op c = node_op (model ! i)"
        using copies i by (simp add: rewired_def)
      ultimately show ?thesis by (simp add: is_output_def)
    qed
    then have "filter is_output (take (nat k) G) = []" by (simp add: filter_empty_conv)
    moreover have "is_output (G ! nat k)" using o1 by (simp add: is_output_def)
    ultimately have "filter is_output (take (nat k) G @ [G ! nat k]) = [G ! nat k]" by simp
    with split show ?thesis by simp
  qed
  from run len copies o1 o2 o3 sole show ?thesis by blast
qed

theorem truncate_copies_prefix_witness:
  "traced ex_graph \<and> (1::int) \<le> 4 \<and> 4 \<le> int (length ex_graph)
   \<and> filter is_output (take (nat 4) ex_graph) = []
   \<and> truncate example_create_name 1 ex_graph 4 = Inr ex_truncated4
   \<and> length ex_truncated4 = 5
   \<and> filter is_output ex_truncated4 = [output_of 1 ''mul'']
   \<and> node_args (ex_truncated4 ! 3) = [Leaf (Ref (NodeRef 1 ''a'')), Leaf (Ref (NodeRef 1 ''w''))]"
proof -
  have k: "(1::int) \<le> 4" "4 \<le> int (length ex_graph)"
    by (simp_all add: ex_graph_def)
  have none: "filter is_output (take (nat 4) ex_graph) = []"
    by code_simp
  have run: "truncate example_create_name 1 ex_graph 4 = Inr ex_truncated4"
    by code_simp
  from truncate_copies_prefix [OF ex_graph_traced k, of example_create_name 1]
  obtain G where G: "truncate example_create_name 1 ex_graph 4 = Inr G"
    and len: "length G = nat 4 + 1"
    and sole: "filter is_output (take (nat 4) ex_graph) = [] \<longrightarrow> filter is_output G = [G ! nat 4]"
    by blast
  from G run have eq: "G = ex_truncated4" by simp
  have l: "length ex_truncated4 = 5" using len eq by simp
  have "filter is_output ex_truncated4 = [ex_truncated4 ! nat 4]" using sole none eq by simp
  moreover have "ex_truncated4 ! nat 4 = output_of 1 ''mul''" by (simp add: ex_truncated4_def)
  ultimately have s: "filter is_output ex_truncated4 = [output_of 1 ''mul'']" by simp
  have a: "node_args (ex_truncated4 ! 3) = [Leaf (Ref (NodeRef 1 ''a'')), Leaf (Ref (NodeRef 1 ''w''))]"
    by (simp add: ex_truncated4_def)
  from ex_graph_traced k none run l s a show ?thesis by blast
qed

subsection \<open>Dead-node elimination\<close>

lemma defined_before_refs:
  "defined_before seen ns \<Longrightarrow> ns = xs @ m # ys \<Longrightarrow> node_refs m \<subseteq> set seen \<union> ref_of ` set xs"
proof (induction ns arbitrary: seen xs)
  case Nil
  then show ?case by simp
next
  case (Cons n ns)
  show ?case
  proof (cases xs)
    case Nil
    with Cons.prems show ?thesis by auto
  next
    case (Cons x xs')
    with Cons.prems have "n = x" "ns = xs' @ m # ys" "defined_before (seen @ [ref_of n]) ns"
      by simp_all
    from Cons.IH [OF this(3) this(2)] \<open>n = x\<close> Cons show ?thesis by auto
  qed
qed

lemma traced_refs_earlier:
  assumes "traced model" and "model = xs @ m # ys"
  shows "node_refs m \<subseteq> ref_of ` set xs"
  using defined_before_refs [of "[]" model xs m ys] assms by (simp add: traced_def)

lemma traced_not_used_earlier:
  assumes "traced model" and "model = pre @ nd # rest" and "m \<in> set pre"
  shows "ref_of nd \<notin> node_refs m"
proof
  assume u: "ref_of nd \<in> node_refs m"
  from assms(3) obtain xs ys where pre: "pre = xs @ m # ys" by (meson split_list)
  then have "model = xs @ m # (ys @ nd # rest)" using assms(2) by simp
  from traced_refs_earlier [OF assms(1) this] u have "ref_of nd \<in> ref_of ` set xs" by blast
  moreover have "distinct (map ref_of model)"
    using assms(1) distinct_refs by (simp add: traced_def)
  ultimately show False using assms(2) pre by auto
qed

lemma traced_referenced_is_used:
  assumes "traced model" and "m \<in> set model" and "x \<in> node_refs m"
  shows "\<exists>n \<in> set model. ref_of n = x \<and> users model n \<noteq> []"
proof -
  from assms(2) obtain xs ys where model: "model = xs @ m # ys" by (meson split_list)
  from traced_refs_earlier [OF assms(1) this] assms(3)
  obtain n where n: "n \<in> set xs" "ref_of n = x" by blast
  have "m \<in> set (users model n)"
    using assms(2,3) n(2) by (simp add: users_def)
  then have "users model n \<noteq> []" by auto
  with n model show ?thesis by auto
qed

lemma remove_args_loop_filter:
  assumes "traced model" and "model = pre @ rest"
  shows "remove_args_loop rest (filter (\<lambda>n. \<not> unused model n) pre @ rest) =
         Inr (filter (\<lambda>n. \<not> unused model n) model)"
  using assms(2)
proof (induction rest arbitrary: pre)
  case Nil
  then show ?case by simp
next
  case (Cons nd rest)
  let ?keep = "\<lambda>n. \<not> unused model n"
  let ?graph = "filter ?keep pre @ nd # rest"
  have none: "\<forall>m \<in> set pre. ref_of nd \<notin> node_refs m"
    using traced_not_used_earlier [OF assms(1) Cons.prems] by blast
  have u: "users ?graph nd = users model nd"
  proof -
    have "filter (\<lambda>m. ref_of nd \<in> node_refs m) (filter ?keep pre) = []"
      using none by (simp add: filter_empty_conv)
    moreover have "filter (\<lambda>m. ref_of nd \<in> node_refs m) pre = []"
      using none by (simp add: filter_empty_conv)
    ultimately show ?thesis by (simp add: users_def Cons.prems)
  qed
  have next_step: "remove_args_loop rest (filter ?keep (pre @ [nd]) @ rest) = Inr (filter ?keep model)"
    using Cons.IH [of "pre @ [nd]"] Cons.prems by simp
  show ?case
  proof (cases "unused model nd")
    case True
    have "distinct (map node_name model)" using assms(1) by (simp add: traced_def)
    then have "distinct (map ref_of model)" by (rule distinct_refs)
    then have dr: "distinct (map ref_of (pre @ nd # rest))" using Cons.prems by simp
    have "filter (\<lambda>m. ref_of m \<noteq> ref_of nd) ?graph = filter ?keep pre @ rest"
    proof -
      have "\<forall>m \<in> set pre \<union> set rest. ref_of m \<noteq> ref_of nd"
      proof (intro ballI notI)
        fix m assume "m \<in> set pre \<union> set rest" "ref_of m = ref_of nd"
        then have "ref_of nd \<in> ref_of ` (set pre \<union> set rest)" by (metis imageI)
        with dr show False by auto
      qed
      then have "filter (\<lambda>m. ref_of m \<noteq> ref_of nd) (filter ?keep pre) = filter ?keep pre"
        "filter (\<lambda>m. ref_of m \<noteq> ref_of nd) rest = rest"
        by (auto simp: filter_id_conv intro: filter_cong)
      then show ?thesis by (simp del: filter_filter)
    qed
    then have "erase_node ?graph nd = Inr (filter ?keep pre @ rest)"
      using True u by (simp add: erase_node_def unused_def)
    moreover have "length (users ?graph nd) = 0 \<and> node_op nd \<noteq> ''output''"
      using True u by (simp add: unused_def)
    ultimately have "remove_args_loop (nd # rest) ?graph =
        remove_args_loop rest (filter ?keep pre @ rest)"
      by simp
    with next_step True show ?thesis by simp
  next
    case False
    then have "(length (users ?graph nd) = 0 \<and> node_op nd \<noteq> ''output'') = False"
      using u by (simp add: unused_def)
    then have "remove_args_loop (nd # rest) ?graph = remove_args_loop rest ?graph"
      by (simp only: remove_args_loop.simps if_False)
    with next_step False show ?thesis by simp
  qed
qed

lemma remove_args_filter:
  assumes "traced model"
  shows "remove_args model = Inr (filter (\<lambda>n. \<not> unused model n) model)"
  using remove_args_loop_filter [OF assms, of "[]" model] by (simp add: remove_args_def)

lemma on_nodes_cong:
  assumes "\<forall>x \<in> set_pyleaf l. fn x = fn' x"
  shows "on_nodes fn l = on_nodes fn' l"
  using assms by (cases l) (simp_all add: on_nodes_def)

lemma map_aggregate_refs_cong:
  "(\<forall>x \<in> arg_refs a. fn x = fn' x) \<longrightarrow>
     map_aggregate a (on_nodes fn) = map_aggregate a (on_nodes fn')"
  "(\<forall>a \<in> set as. \<forall>x \<in> arg_refs a. fn x = fn' x) \<longrightarrow>
     map_aggregate_list as (on_nodes fn) = map_aggregate_list as (on_nodes fn')"
  "(\<forall>kv \<in> set kvs. \<forall>x \<in> arg_refs (snd kv). fn x = fn' x) \<longrightarrow>
     map_aggregate_items kvs (on_nodes fn) = map_aggregate_items kvs (on_nodes fn')"
proof (induction a "on_nodes fn" and as "on_nodes fn" and kvs "on_nodes fn"
    rule: map_aggregate_map_aggregate_list_map_aggregate_items.induct)
  case (1 x)
  show ?case
  proof
    assume "\<forall>r \<in> arg_refs (Leaf x). fn r = fn' r"
    then have "on_nodes fn x = on_nodes fn' x" by (simp add: on_nodes_cong)
    then show "map_aggregate (Leaf x) (on_nodes fn) = map_aggregate (Leaf x) (on_nodes fn')"
      by simp
  qed
next
  case (2 xs)
  then show ?case by simp
next
  case (3 xs)
  then show ?case by simp
next
  case (4 kvs)
  then show ?case by simp
next
  case (5 a b c)
  then show ?case by (auto split: sum.splits)
next
  case 6
  show ?case by simp
next
  case (7 x xs)
  then show ?case by (auto split: sum.splits)
next
  case 8
  show ?case by simp
next
  case (9 kv kvs)
  then show ?case by (auto split: sum.splits)
qed

text \<open>
  Executing a graph from which nodes were dropped, when the nodes kept include every
  output node and every node a kept node refers to, and the dropped nodes that are
  executed leave the store as it is: the environments agree on the kept nodes, the
  stores are equal, and the inputs of the dropped placeholders are left out.
\<close>

lemma exec_nodes_kept:
  assumes "distinct (map node_name model)"
    and "\<forall>m \<in> set model. keep m \<longrightarrow>
           (\<forall>x \<in> node_refs m. \<exists>n \<in> set model. keep n \<and> node_name n = ref_name x)"
    and "\<forall>m \<in> set model. node_op m = ''output'' \<longrightarrow> keep m"
    and "\<forall>m \<in> set model. \<not> keep m \<and> \<not> is_placeholder m \<longrightarrow> side_effect_free sem m"
  shows "set rest \<subseteq> set model \<Longrightarrow>
     \<forall>n \<in> set model. keep n \<longrightarrow> venv' (node_name n) = venv (node_name n) \<Longrightarrow>
     exec_nodes sem rest ins venv s = Inr r \<Longrightarrow>
     exec_nodes sem (filter keep rest) (surviving_inputs keep rest ins) venv' s = Inr r"
proof (induction rest arbitrary: ins venv venv' s)
  case Nil
  then show ?case by simp
next
  case (Cons nd rest)
  have nd: "nd \<in> set model" and sub: "set rest \<subseteq> set model"
    using Cons.prems(1) by simp_all
  have inj: "node_name n \<noteq> node_name nd" if "n \<in> set model" "n \<noteq> nd" for n
    using assms(1) that nd by (auto simp: distinct_map inj_on_def)
  text \<open>A kept node evaluates its arguments to the same values in both environments.\<close>
  have same: "value_of venv' x = value_of venv x" if "keep nd" "x \<in> node_refs nd" for x
  proof -
    from assms(2) nd that obtain n where n: "n \<in> set model" "keep n" "node_name n = ref_name x"
      by blast
    with Cons.prems(2) have "venv' (node_name n) = venv (node_name n)" by blast
    then show ?thesis by (simp add: value_of_def n(3))
  qed
  text \<open>Binding the node's name keeps the environments in agreement.\<close>
  have bind_both: "\<forall>n \<in> set model. keep n \<longrightarrow>
      (venv'(node_name nd \<mapsto> w)) (node_name n) = (venv(node_name nd \<mapsto> w)) (node_name n)" for w
    using Cons.prems(2) by simp
  have bind_one: "\<forall>n \<in> set model. keep n \<longrightarrow>
      venv' (node_name n) = (venv(node_name nd \<mapsto> w)) (node_name n)" if "\<not> keep nd" for w
  proof (intro ballI impI)
    fix n assume n: "n \<in> set model" "keep n"
    with that have "n \<noteq> nd" by blast
    from inj [OF n(1) this] Cons.prems(2) n
    show "venv' (node_name n) = (venv(node_name nd \<mapsto> w)) (node_name n)" by simp
  qed
  consider (is_ph) "node_op nd = ''placeholder''"
    | (is_out) "node_op nd \<noteq> ''placeholder''" "node_op nd = ''output''"
    | (other) "node_op nd \<noteq> ''placeholder''" "node_op nd \<noteq> ''output''"
    by blast
  then show ?case
  proof cases
    case is_ph
    with Cons.prems(3) obtain w ins' where ins: "ins = w # ins'"
      and run: "exec_nodes sem rest ins' (venv(node_name nd \<mapsto> w)) s = Inr r"
      by (auto split: list.splits)
    show ?thesis
    proof (cases "keep nd")
      case True
      have "exec_nodes sem (filter keep rest) (surviving_inputs keep rest ins')
          (venv'(node_name nd \<mapsto> w)) s = Inr r"
        by (rule Cons.IH [OF sub bind_both run])
      then show ?thesis using True is_ph ins by (simp add: is_placeholder_def)
    next
      case False
      have "exec_nodes sem (filter keep rest) (surviving_inputs keep rest ins') venv' s = Inr r"
        by (rule Cons.IH [OF sub bind_one [OF False] run])
      then show ?thesis using False is_ph ins by (simp add: is_placeholder_def)
    qed
  next
    case is_out
    then have k: "keep nd" using assms(3) nd by blast
    from Cons.prems(3) is_out obtain a as v where args: "node_args nd = a # as"
      and run: "map_arg a (value_of venv) = Inr v" and r: "r = (v, s)"
      by (auto split: list.splits sum.splits)
    have "arg_refs a \<subseteq> node_refs nd" using args by (auto simp: node_refs_def)
    then have "\<forall>x \<in> arg_refs a. value_of venv' x = value_of venv x" using same [OF k] by blast
    then have "map_arg a (value_of venv') = map_arg a (value_of venv)"
      using map_aggregate_refs_cong(1) [of a "value_of venv'" "value_of venv"]
      by (simp add: map_arg_def)
    with run r show ?thesis using k is_out args by (simp add: is_placeholder_def)
  next
    case other
    with Cons.prems(3) obtain vs kws w s1 where
      vs: "map_arg_list (node_args nd) (value_of venv) = Inr vs"
      and kws: "map_arg_items (node_kwargs nd) (value_of venv) = Inr kws"
      and w: "sem nd vs kws s = Inr (w, s1)"
      and run: "exec_nodes sem rest ins (venv(node_name nd \<mapsto> w)) s1 = Inr r"
      by (auto split: sum.splits prod.splits)
    show ?thesis
    proof (cases "keep nd")
      case True
      have "\<forall>a \<in> set (node_args nd). \<forall>x \<in> arg_refs a. value_of venv' x = value_of venv x"
        using same [OF True] by (auto simp: node_refs_def)
      then have vs': "map_arg_list (node_args nd) (value_of venv') = Inr vs"
        using map_aggregate_refs_cong(2) [of "node_args nd" "value_of venv'" "value_of venv"] vs
        by (simp add: map_arg_list_def)
      have "\<forall>kv \<in> set (node_kwargs nd). \<forall>x \<in> arg_refs (snd kv). value_of venv' x = value_of venv x"
        using same [OF True] by (auto simp: node_refs_def)
      then have kws': "map_arg_items (node_kwargs nd) (value_of venv') = Inr kws"
        using map_aggregate_refs_cong(3) [of "node_kwargs nd" "value_of venv'" "value_of venv"] kws
        by (simp add: map_arg_items_def)
      have "exec_nodes sem (filter keep rest) (surviving_inputs keep rest ins)
          (venv'(node_name nd \<mapsto> w)) s1 = Inr r"
        by (rule Cons.IH [OF sub bind_both run])
      then show ?thesis using True other vs' kws' w by (simp add: is_placeholder_def)
    next
      case False
      with other nd assms(4) have "side_effect_free sem nd" by (simp add: is_placeholder_def)
      with w have "s1 = s" unfolding side_effect_free_def by blast
      with run have run': "exec_nodes sem rest ins (venv(node_name nd \<mapsto> w)) s = Inr r" by simp
      have "exec_nodes sem (filter keep rest) (surviving_inputs keep rest ins) venv' s = Inr r"
        by (rule Cons.IH [OF sub bind_one [OF False] run'])
      then show ?thesis using False other by (simp add: is_placeholder_def)
    qed
  qed
qed

lemma surviving_inputs_length:
  "length ins = length (filter is_placeholder ns) \<Longrightarrow>
     length (surviving_inputs keep ns ins) = length (filter is_placeholder (filter keep ns))"
proof (induction ns arbitrary: ins)
  case Nil
  then show ?case by simp
next
  case (Cons nd ns)
  show ?case
  proof (cases "is_placeholder nd")
    case True
    with Cons.prems obtain w ins' where ins: "ins = w # ins'"
      and l: "length ins' = length (filter is_placeholder ns)"
      by (cases ins) auto
    from Cons.IH [OF l] show ?thesis using True ins by simp
  next
    case False
    with Cons.prems have "length ins = length (filter is_placeholder ns)" by simp
    from Cons.IH [OF this] show ?thesis using False by simp
  qed
qed

lemma run_graph_kept:
  assumes "traced model"
    and "\<forall>m \<in> set model. unused model m \<and> \<not> is_placeholder m \<longrightarrow> side_effect_free sem m"
    and "run_graph sem model ins s = Inr r"
  shows "run_graph sem (filter (\<lambda>n. \<not> unused model n) model)
           (surviving_inputs (\<lambda>n. \<not> unused model n) model ins) s = Inr r"
proof -
  let ?keep = "\<lambda>n. \<not> unused model n"
  from assms(3) have arity: "length ins = length (filter is_placeholder model)"
    and run: "exec_nodes sem model ins Map.empty s = Inr r"
    by (auto simp: run_graph_def split: if_splits)
  have d: "distinct (map node_name model)" using assms(1) by (simp add: traced_def)
  have closed: "\<forall>m \<in> set model. ?keep m \<longrightarrow>
      (\<forall>x \<in> node_refs m. \<exists>n \<in> set model. ?keep n \<and> node_name n = ref_name x)"
  proof (intro ballI impI)
    fix m x assume "m \<in> set model" "x \<in> node_refs m"
    from traced_referenced_is_used [OF assms(1) this]
    obtain n where n: "n \<in> set model" "ref_of n = x" "users model n \<noteq> []" by blast
    then have "?keep n" "node_name n = ref_name x" by (auto simp: unused_def ref_of_def)
    with n(1) show "\<exists>n \<in> set model. ?keep n \<and> node_name n = ref_name x" by blast
  qed
  have outs: "\<forall>m \<in> set model. node_op m = ''output'' \<longrightarrow> ?keep m"
    by (simp add: unused_def)
  have pure: "\<forall>m \<in> set model. \<not> ?keep m \<and> \<not> is_placeholder m \<longrightarrow> side_effect_free sem m"
    using assms(2) by simp
  have "exec_nodes sem (filter ?keep model) (surviving_inputs ?keep model ins) Map.empty s = Inr r"
    by (rule exec_nodes_kept [OF d closed outs pure _ _ run]) simp_all
  then show ?thesis
    using surviving_inputs_length [OF arity, of ?keep] by (simp add: run_graph_def)
qed

lemma ex_chain_traced: "traced ex_chain"
  by (simp add: traced_def ex_chain_def ex_a_def ex_cos_def ex_sin_def ex_return_a_def
      node_refs_def ref_of_def)

lemma ex_inplace_traced: "traced ex_inplace"
  by (simp add: traced_def ex_inplace_def ex_a_def ex_b_def ex_add_inplace_def ex_return_a_def
      node_refs_def ref_of_def)

lemma ex_graph_kept: "filter (\<lambda>n. \<not> unused ex_graph n) ex_graph = ex_cleaned"
  by (simp add: unused_def users_def ex_graph_def ex_cleaned_def ex_a_def ex_b_def ex_w_def
      ex_mul_def ex_output_def node_refs_def ref_of_def)

lemma ex_chain_kept: "filter (\<lambda>n. \<not> unused ex_chain n) ex_chain = [ex_a, ex_cos, ex_return_a]"
  by (simp add: unused_def users_def ex_chain_def ex_a_def ex_cos_def ex_sin_def ex_return_a_def
      node_refs_def ref_of_def)

lemma ex_inplace_kept: "filter (\<lambda>n. \<not> unused ex_inplace n) ex_inplace = ex_inplace_cleaned"
  by (simp add: unused_def users_def ex_inplace_def ex_inplace_cleaned_def ex_a_def ex_b_def
      ex_add_inplace_def ex_return_a_def node_refs_def ref_of_def)

text \<open>
  Claim C4, as stated, fails on its last part, in two ways. A node without consumer
  is erased whatever it does: in the graph of \<open>a.add_(b); return a\<close> the in-place
  addition is erased, both inputs remain, and on the same inputs (tensors at the
  addresses 10 and 20) the original graph leaves the sum in the returned tensor while
  the resulting graph returns it untouched. And an unused input placeholder is erased,
  so the resulting graph takes fewer arguments: called with the arguments of the
  original graph it raises a \<open>TypeError\<close> where the original returns a value.
\<close>

theorem same_output_counterexample:
  "traced ex_inplace \<and> remove_args ex_inplace = Inr ex_inplace_cleaned
   \<and> run_graph example_sem ex_inplace [10, 20] (\<lambda>a. a) = Inr (Leaf (Ref 10), (\<lambda>a. a)(10 := 30))
   \<and> run_graph example_sem ex_inplace_cleaned [10, 20] (\<lambda>a. a) = Inr (Leaf (Ref 10), (\<lambda>a. a))
   \<and> ((\<lambda>a. a)(10 := 30 :: int)) 10 \<noteq> (\<lambda>a. a) 10
   \<and> traced ex_graph \<and> remove_args ex_graph = Inr ex_cleaned
   \<and> run_graph example_sem ex_graph [5, 9] (\<lambda>a. a) = Inr (Leaf (Ref 0), (\<lambda>a. a))
   \<and> run_graph example_sem ex_cleaned [5, 9] (\<lambda>a. a) = Inl TypeError"
proof -
  have 1: "remove_args ex_inplace = Inr ex_inplace_cleaned"
    using remove_args_filter [OF ex_inplace_traced] by (simp only: ex_inplace_kept)
  have 2: "run_graph example_sem ex_inplace [10, 20] (\<lambda>a. a) = Inr (Leaf (Ref 10), (\<lambda>a. a)(10 := 30))"
    by (simp add: run_graph_def is_placeholder_def ex_inplace_def ex_a_def ex_b_def
        ex_add_inplace_def ex_return_a_def map_arg_def map_arg_list_def map_arg_items_def
        on_nodes_def value_of_def example_sem_def)
  have 3: "run_graph example_sem ex_inplace_cleaned [10, 20] (\<lambda>a. a) = Inr (Leaf (Ref 10), (\<lambda>a. a))"
    by (simp add: run_graph_def is_placeholder_def ex_inplace_cleaned_def ex_a_def ex_b_def
        ex_return_a_def map_arg_def on_nodes_def value_of_def)
  have 4: "remove_args ex_graph = Inr ex_cleaned"
    using remove_args_filter [OF ex_graph_traced] by (simp only: ex_graph_kept)
  have 5: "run_graph example_sem ex_graph [5, 9] (\<lambda>a. a) = Inr (Leaf (Ref 0), (\<lambda>a. a))"
    by (simp add: run_graph_def is_placeholder_def ex_graph_def ex_a_def ex_b_def ex_w_def
        ex_mul_def ex_output_def map_arg_def map_arg_list_def map_arg_items_def
        on_nodes_def value_of_def example_sem_def)
  have 6: "run_graph example_sem ex_cleaned [5, 9] (\<lambda>a. a) = Inl TypeError"
    by (simp add: run_graph_def is_placeholder_def ex_cleaned_def ex_a_def ex_w_def
        ex_mul_def ex_output_def)
  have 7: "((\<lambda>a. a)(10 := 30 :: int)) 10 \<noteq> (\<lambda>a. a) 10"
    by simp
  from ex_inplace_traced ex_graph_traced 1 2 3 4 5 6 7 show ?thesis
    by - (intro conjI; assumption)
qed

text \<open>
  Claim C4, amended. For every traced graph, \<open>remove_args\<close> removes exactly the nodes
  that have no consumer in the graph and are not an output node, in one pass: a node
  whose only consumers are removed is kept. Whenever the erased nodes other than
  placeholders have no side effect and executing the original graph on some inputs
  returns, executing the resulting graph on the inputs of the placeholders that remain
  (the inputs of the erased placeholders left out) returns the same value and leaves
  the same tensor contents.
\<close>

theorem remove_args_single_pass:
  assumes "traced model"
  shows "remove_args model = Inr (filter (\<lambda>n. \<not> unused model n) model)
    \<and> ((\<forall>m \<in> set model. unused model m \<and> \<not> is_placeholder m \<longrightarrow> side_effect_free sem m) \<longrightarrow>
        run_graph sem model ins s = Inr r \<longrightarrow>
         run_graph sem (filter (\<lambda>n. \<not> unused model n) model)
           (surviving_inputs (\<lambda>n. \<not> unused model n) model ins) s = Inr r)"
proof (intro conjI impI)
  show "remove_args model = Inr (filter (\<lambda>n. \<not> unused model n) model)"
    by (rule remove_args_filter [OF assms])
next
  assume p: "\<forall>m \<in> set model. unused model m \<and> \<not> is_placeholder m \<longrightarrow> side_effect_free sem m"
    and r: "run_graph sem model ins s = Inr r"
  show "run_graph sem (filter (\<lambda>n. \<not> unused model n) model)
      (surviving_inputs (\<lambda>n. \<not> unused model n) model ins) s = Inr r"
    by (rule run_graph_kept [OF assms p r])
qed

theorem remove_args_single_pass_witness:
  "traced ex_chain
   \<and> remove_args ex_chain = Inr [ex_a, ex_cos, ex_return_a]
   \<and> unused [ex_a, ex_cos, ex_return_a] ex_cos
   \<and> side_effect_free example_sem ex_sin
   \<and> run_graph example_sem ex_chain [5] (\<lambda>a. a) = Inr (Leaf (Ref 5), (\<lambda>a. a))
   \<and> run_graph example_sem [ex_a, ex_cos, ex_return_a] [5] (\<lambda>a. a) = Inr (Leaf (Ref 5), (\<lambda>a. a))
   \<and> traced ex_graph
   \<and> run_graph example_sem ex_graph [5, 9] (\<lambda>a. a) = Inr (Leaf (Ref 0), (\<lambda>a. a))
   \<and> surviving_inputs (\<lambda>n. \<not> unused ex_graph n) ex_graph [5, 9 :: int] = [5]
   \<and> run_graph example_sem ex_cleaned [5] (\<lambda>a. a) = Inr (Leaf (Ref 0), (\<lambda>a. a))"
proof -
  note chain = remove_args_single_pass [OF ex_chain_traced, of example_sem "[5]" "\<lambda>a. a"
      "(Leaf (Ref 5), (\<lambda>a. a))"]
  note graph = remove_args_single_pass [OF ex_graph_traced, of example_sem "[5, 9]" "\<lambda>a. a"
      "(Leaf (Ref 0), (\<lambda>a. a))"]
  have 1: "remove_args ex_chain = Inr [ex_a, ex_cos, ex_return_a]"
    using chain [THEN conjunct1] by (simp only: ex_chain_kept)
  have 2: "unused [ex_a, ex_cos, ex_return_a] ex_cos"
    by (simp add: unused_def users_def ex_a_def ex_cos_def ex_return_a_def node_refs_def ref_of_def)
  have 3: "side_effect_free example_sem ex_sin"
    unfolding side_effect_free_def example_sem_def
    by (simp add: ex_sin_def split: list.splits agg.splits pyleaf.splits)
  have pure_chain: "\<forall>m \<in> set ex_chain. unused ex_chain m \<and> \<not> is_placeholder m \<longrightarrow>
      side_effect_free example_sem m"
    using 3 [unfolded ex_sin_def]
    by (simp add: unused_def users_def ex_chain_def ex_a_def ex_cos_def ex_sin_def
        ex_return_a_def node_refs_def ref_of_def is_placeholder_def)
  have 4: "run_graph example_sem ex_chain [5] (\<lambda>a. a) = Inr (Leaf (Ref 5), (\<lambda>a. a))"
    by (simp add: run_graph_def is_placeholder_def ex_chain_def ex_a_def ex_cos_def ex_sin_def
        ex_return_a_def map_arg_def map_arg_list_def map_arg_items_def
        on_nodes_def value_of_def example_sem_def)
  have s1: "surviving_inputs (\<lambda>n. \<not> unused ex_chain n) ex_chain [5 :: int] = [5]"
    by (simp add: unused_def users_def ex_chain_def ex_a_def ex_cos_def ex_sin_def ex_return_a_def
        node_refs_def ref_of_def is_placeholder_def)
  have 5: "run_graph example_sem [ex_a, ex_cos, ex_return_a] [5] (\<lambda>a. a) = Inr (Leaf (Ref 5), (\<lambda>a. a))"
    using chain [THEN conjunct2, THEN mp, THEN mp, OF pure_chain 4]
    by (simp only: s1 ex_chain_kept)
  have 6: "run_graph example_sem ex_graph [5, 9] (\<lambda>a. a) = Inr (Leaf (Ref 0), (\<lambda>a. a))"
    by (simp add: run_graph_def is_placeholder_def ex_graph_def ex_a_def ex_b_def ex_w_def
        ex_mul_def ex_output_def map_arg_def map_arg_list_def map_arg_items_def
        on_nodes_def value_of_def example_sem_def)
  have pure_graph: "\<forall>m \<in> set ex_graph. unused ex_graph m \<and> \<not> is_placeholder m \<longrightarrow>
      side_effect_free example_sem m"
    by (simp add: unused_def users_def ex_graph_def ex_a_def ex_b_def ex_w_def
        ex_mul_def ex_output_def node_refs_def ref_of_def is_placeholder_def)
  have 7: "surviving_inputs (\<lambda>n. \<not> unused ex_graph n) ex_graph [5, 9 :: int] = [5]"
    by (simp add: unused_def users_def ex_graph_def ex_a_def ex_b_def ex_w_def
      ex_mul_def ex_output_def node_refs_def ref_of_def is_placeholder_def)
  have 8: "run_graph example_sem ex_cleaned [5] (\<lambda>a. a) = Inr (Leaf (Ref 0), (\<lambda>a. a))"
    using graph [THEN conjunct2, THEN mp, THEN mp, OF pure_graph 6]
    by (simp only: 7 ex_graph_kept)
  from ex_chain_traced ex_graph_traced 1 2 3 4 5 6 7 8 show ?thesis
    by - (intro conjI; assumption)
qed

end
